theory Spec2Isabelle
  imports Main "HOL-Library.Word"
begin

unbundle bit_operations_syntax

section \<open>Bytes, errors and results\<close>

text \<open>
  A Go \<open>string\<close> and a \<open>[]byte\<close> are both sequences of bytes.  The names of the
  algorithms (\<open>"MD5"\<close>, \<open>"AES"\<close>, ...) are only ever compared, so they stay HOL strings.
\<close>

type_synonym byte = "8 word"
type_synonym bytes = "byte list"

text \<open>
  Every way in which a call can fail is a value.  \<open>Panic\<close> is a Go run-time panic or an
  explicit \<open>panic(...)\<close>: nothing in the package recovers, so it ends the process.  All other
  constructors are \<open>error\<close> values handed back to the caller.  \<open>NotDiscovered\<close> is the
  error kind the specification names for a v3 request without discovery.
\<close>

datatype error =
    Panic string
  | EncodeErr string
  | DecodeErr string
  | NetErr string
  | DialErr string
  | KeySizeError nat
  | GetBulkErr error
  | NotEncrypted
  | NoTrapUser
  | NoMatchingUser
  | InvalidAuthAlg string
  | InvalidPrivAlg string
  | NotDiscovered

definition bindE :: "error + 'a \<Rightarrow> ('a \<Rightarrow> error + 'b) \<Rightarrow> error + 'b" where
  "bindE m f = (case m of Inl e \<Rightarrow> Inl e | Inr x \<Rightarrow> f x)"

text \<open>\<open>if err != nil { panic(err) }\<close> and \<open>if err != nil { return ..., err }\<close>.\<close>

definition orPanic :: "string + 'a \<Rightarrow> error + 'a" where
  "orPanic r = (case r of Inl m \<Rightarrow> Inl (Panic m) | Inr x \<Rightarrow> Inr x)"

definition orReturn :: "(string \<Rightarrow> error) \<Rightarrow> string + 'a \<Rightarrow> error + 'a" where
  "orReturn mk r = (case r of Inl m \<Rightarrow> Inl (mk m) | Inr x \<Rightarrow> Inr x)"

text \<open>
  \<open>x, _ := f()\<close>: a returned error is dropped and the value returned beside it, \<open>d\<close>, is
  used; a panic is not a return and still propagates.
\<close>

definition discardErr :: "'a \<Rightarrow> error + 'a \<Rightarrow> error + 'a" where
  "discardErr d r = (case r of Inl (Panic m) \<Rightarrow> Inl (Panic m) | Inl _ \<Rightarrow> Inr d | Inr x \<Rightarrow> Inr x)"

text \<open>\<open>s[lo:hi]\<close> and \<open>xs[i]\<close> panic out of range; \<open>strings.Repeat\<close> panics on a negative count.\<close>

definition substr :: "'a list \<Rightarrow> nat \<Rightarrow> nat \<Rightarrow> error + 'a list" where
  "substr s lo hi =
     (if lo \<le> hi \<and> hi \<le> length s then Inr (take (hi - lo) (drop lo s))
      else Inl (Panic ''slice bounds out of range''))"

definition index :: "'a list \<Rightarrow> nat \<Rightarrow> error + 'a" where
  "index xs i = (if i < length xs then Inr (xs ! i) else Inl (Panic ''index out of range''))"

definition Repeat :: "bytes \<Rightarrow> int \<Rightarrow> error + bytes" where
  "Repeat s n =
     (if n < 0 then Inl (Panic ''strings: negative Repeat count'')
      else Inr (concat (replicate (nat n) s)))"

text \<open>\<open>strings.Replace(s, old, new, 1)\<close>: the leftmost occurrence of \<open>old\<close> is replaced.\<close>

fun Replace_first :: "bytes \<Rightarrow> bytes \<Rightarrow> bytes \<Rightarrow> bytes" where
  "Replace_first [] old new = (if old = [] then new else [])"
| "Replace_first (x # xs) old new =
     (if take (length old) (x # xs) = old then new @ drop (length old) (x # xs)
      else x # Replace_first xs old new)"

function chunks :: "nat \<Rightarrow> 'a list \<Rightarrow> 'a list list" where
  "chunks n xs = (if n = 0 \<or> xs = [] then [] else take n xs # chunks n (drop n xs))"
  by pat_completeness auto
termination
  by (relation "measure (\<lambda>(n, xs). length xs)") auto

declare chunks.simps [simp del]

definition ascii :: "string \<Rightarrow> bytes" where
  "ascii s = map (\<lambda>c. of_nat (of_char c)) s"

definition xor_bytes :: "bytes \<Rightarrow> bytes \<Rightarrow> bytes" where
  "xor_bytes xs ys = map2 (XOR) xs ys"

text \<open>\<open>binary.Write(buf, binary.BigEndian, x)\<close> for 32-bit and 64-bit integers.\<close>

definition bytes_be32 :: "32 word \<Rightarrow> bytes" where
  "bytes_be32 x = [ucast (drop_bit 24 x), ucast (drop_bit 16 x), ucast (drop_bit 8 x), ucast x]"

definition bytes_be64 :: "64 word \<Rightarrow> bytes" where
  "bytes_be64 x = bytes_be32 (ucast (drop_bit 32 x)) @ bytes_be32 (ucast x)"

section \<open>Library: the hash functions of \<open>crypto/md5\<close> and \<open>crypto/sha1\<close>\<close>

text \<open>
  The two digests are those of RFC 1321 and FIPS 180-1, over 32-bit words.  A message is
  padded with \<open>0x80\<close>, zeros and its bit length to a multiple of 64 bytes, and the
  compression function is folded over the 64-byte blocks.
\<close>

definition le32 :: "bytes \<Rightarrow> 32 word" where
  "le32 bs = foldr (\<lambda>b acc. ucast b OR push_bit 8 acc) bs 0"

definition be32 :: "bytes \<Rightarrow> 32 word" where
  "be32 bs = foldl (\<lambda>acc b. push_bit 8 acc OR ucast b) 0 bs"

definition bytes_le32 :: "32 word \<Rightarrow> bytes" where
  "bytes_le32 x = [ucast x, ucast (drop_bit 8 x), ucast (drop_bit 16 x), ucast (drop_bit 24 x)]"

definition bytes_le64 :: "64 word \<Rightarrow> bytes" where
  "bytes_le64 x = bytes_le32 (ucast x) @ bytes_le32 (ucast (drop_bit 32 x))"

definition words4 :: "bytes \<Rightarrow> bytes list" where
  "words4 blk = map (\<lambda>i. take 4 (drop (4 * i) blk)) [0..<16]"

definition md_pad_zeros :: "nat \<Rightarrow> nat" where
  "md_pad_zeros n = (119 - n mod 64) mod 64"

definition md5_K :: "32 word list" where
  "md5_K = [
   0xd76aa478, 0xe8c7b756, 0x242070db, 0xc1bdceee,
   0xf57c0faf, 0x4787c62a, 0xa8304613, 0xfd469501,
   0x698098d8, 0x8b44f7af, 0xffff5bb1, 0x895cd7be,
   0x6b901122, 0xfd987193, 0xa679438e, 0x49b40821,
   0xf61e2562, 0xc040b340, 0x265e5a51, 0xe9b6c7aa,
   0xd62f105d, 0x02441453, 0xd8a1e681, 0xe7d3fbc8,
   0x21e1cde6, 0xc33707d6, 0xf4d50d87, 0x455a14ed,
   0xa9e3e905, 0xfcefa3f8, 0x676f02d9, 0x8d2a4c8a,
   0xfffa3942, 0x8771f681, 0x6d9d6122, 0xfde5380c,
   0xa4beea44, 0x4bdecfa9, 0xf6bb4b60, 0xbebfbc70,
   0x289b7ec6, 0xeaa127fa, 0xd4ef3085, 0x04881d05,
   0xd9d4d039, 0xe6db99e5, 0x1fa27cf8, 0xc4ac5665,
   0xf4292244, 0x432aff97, 0xab9423a7, 0xfc93a039,
   0x655b59c3, 0x8f0ccc92, 0xffeff47d, 0x85845dd1,
   0x6fa87e4f, 0xfe2ce6e0, 0xa3014314, 0x4e0811a1,
   0xf7537e82, 0xbd3af235, 0x2ad7d2bb, 0xeb86d391]"

definition md5_S :: "nat list" where
  "md5_S = concat (map (\<lambda>r. concat (replicate 4 r))
     [[7, 12, 17, 22], [5, 9, 14, 20], [4, 11, 16, 23], [6, 10, 15, 21]])"

type_synonym md5_state = "32 word \<times> 32 word \<times> 32 word \<times> 32 word"

definition md5_step :: "32 word list \<Rightarrow> md5_state \<Rightarrow> nat \<Rightarrow> md5_state" where
  "md5_step M st i =
     (case st of (a, b, c, d) \<Rightarrow>
        let f = (if i < 16 then (b AND c) OR (NOT b AND d)
                 else if i < 32 then (d AND b) OR (NOT d AND c)
                 else if i < 48 then b XOR c XOR d
                 else c XOR (b OR NOT d));
            g = (if i < 16 then i
                 else if i < 32 then (5 * i + 1) mod 16
                 else if i < 48 then (3 * i + 5) mod 16
                 else (7 * i) mod 16)
        in (d, b + word_rotl (md5_S ! i) (a + f + md5_K ! i + M ! g), b, c))"

definition md5_compress :: "md5_state \<Rightarrow> bytes \<Rightarrow> md5_state" where
  "md5_compress st blk =
     (case st of (a0, b0, c0, d0) \<Rightarrow>
        case foldl (md5_step (map le32 (words4 blk))) st [0..<64] of (a, b, c, d) \<Rightarrow>
          (a0 + a, b0 + b, c0 + c, d0 + d))"

definition md5_init :: md5_state where
  "md5_init = (0x67452301, 0xefcdab89, 0x98badcfe, 0x10325476)"

definition md5_pad :: "bytes \<Rightarrow> bytes" where
  "md5_pad m = m @ [0x80] @ replicate (md_pad_zeros (length m)) 0
                 @ bytes_le64 (of_nat (8 * length m))"

definition md5 :: "bytes \<Rightarrow> bytes" where
  "md5 m = (case foldl md5_compress md5_init (chunks 64 (md5_pad m)) of (a, b, c, d) \<Rightarrow>
              bytes_le32 a @ bytes_le32 b @ bytes_le32 c @ bytes_le32 d)"

type_synonym sha1_state = "32 word \<times> 32 word \<times> 32 word \<times> 32 word \<times> 32 word"

definition sha1_schedule :: "bytes \<Rightarrow> 32 word list" where
  "sha1_schedule blk =
     foldl (\<lambda>w i. w @ [word_rotl 1 (w ! (i - 3) XOR w ! (i - 8) XOR w ! (i - 14) XOR w ! (i - 16))])
       (map be32 (words4 blk)) [16..<80]"

definition sha1_step :: "32 word list \<Rightarrow> sha1_state \<Rightarrow> nat \<Rightarrow> sha1_state" where
  "sha1_step W st i =
     (case st of (a, b, c, d, e) \<Rightarrow>
        let f = (if i < 20 then (b AND c) OR (NOT b AND d)
                 else if i < 40 then b XOR c XOR d
                 else if i < 60 then (b AND c) OR (b AND d) OR (c AND d)
                 else b XOR c XOR d);
            k = (if i < 20 then 0x5a827999
                 else if i < 40 then 0x6ed9eba1
                 else if i < 60 then 0x8f1bbcdc
                 else 0xca62c1d6)
        in (word_rotl 5 a + f + e + k + W ! i, a, word_rotl 30 b, c, d))"

definition sha1_compress :: "sha1_state \<Rightarrow> bytes \<Rightarrow> sha1_state" where
  "sha1_compress st blk =
     (case st of (a0, b0, c0, d0, e0) \<Rightarrow>
        case foldl (sha1_step (sha1_schedule blk)) st [0..<80] of (a, b, c, d, e) \<Rightarrow>
          (a0 + a, b0 + b, c0 + c, d0 + d, e0 + e))"

definition sha1_init :: sha1_state where
  "sha1_init = (0x67452301, 0xefcdab89, 0x98badcfe, 0x10325476, 0xc3d2e1f0)"

definition sha1_pad :: "bytes \<Rightarrow> bytes" where
  "sha1_pad m = m @ [0x80] @ replicate (md_pad_zeros (length m)) 0
                  @ bytes_be64 (of_nat (8 * length m))"

definition sha1 :: "bytes \<Rightarrow> bytes" where
  "sha1 m = (case foldl sha1_compress sha1_init (chunks 64 (sha1_pad m)) of (a, b, c, d, e) \<Rightarrow>
               bytes_be32 a @ bytes_be32 b @ bytes_be32 c @ bytes_be32 d @ bytes_be32 e)"

section \<open>Library: the DES block cipher of \<open>crypto/des\<close>\<close>

text \<open>
  FIPS 46-3 on lists of bits, most significant bit of each byte first.  Table entries
  count bit positions from 1, as the standard prints them.
\<close>

definition bits_of_byte :: "byte \<Rightarrow> bool list" where
  "bits_of_byte b = rev (map (bit b) [0..<8])"

definition byte_of_bits :: "bool list \<Rightarrow> byte" where
  "byte_of_bits bs = horner_sum of_bool 2 (rev bs)"

definition bits_of_bytes :: "bytes \<Rightarrow> bool list" where
  "bits_of_bytes bs = concat (map bits_of_byte bs)"

definition bytes_of_bits :: "bool list \<Rightarrow> bytes" where
  "bytes_of_bits bs = map byte_of_bits (chunks 8 bs)"

definition permute :: "nat list \<Rightarrow> bool list \<Rightarrow> bool list" where
  "permute tbl xs = map (\<lambda>i. xs ! (i - 1)) tbl"

definition xor_bits :: "bool list \<Rightarrow> bool list \<Rightarrow> bool list" where
  "xor_bits xs ys = map2 (\<lambda>x y. x \<noteq> y) xs ys"

definition des_IP :: "nat list" where
  "des_IP = [58, 50, 42, 34, 26, 18, 10, 2, 60, 52, 44, 36, 28, 20, 12, 4,
             62, 54, 46, 38, 30, 22, 14, 6, 64, 56, 48, 40, 32, 24, 16, 8,
             57, 49, 41, 33, 25, 17, 9, 1, 59, 51, 43, 35, 27, 19, 11, 3,
             61, 53, 45, 37, 29, 21, 13, 5, 63, 55, 47, 39, 31, 23, 15, 7]"

definition des_FP :: "nat list" where
  "des_FP = [40, 8, 48, 16, 56, 24, 64, 32, 39, 7, 47, 15, 55, 23, 63, 31,
             38, 6, 46, 14, 54, 22, 62, 30, 37, 5, 45, 13, 53, 21, 61, 29,
             36, 4, 44, 12, 52, 20, 60, 28, 35, 3, 43, 11, 51, 19, 59, 27,
             34, 2, 42, 10, 50, 18, 58, 26, 33, 1, 41, 9, 49, 17, 57, 25]"

definition des_E :: "nat list" where
  "des_E = [32, 1, 2, 3, 4, 5, 4, 5, 6, 7, 8, 9, 8, 9, 10, 11, 12, 13,
            12, 13, 14, 15, 16, 17, 16, 17, 18, 19, 20, 21, 20, 21, 22, 23, 24, 25,
            24, 25, 26, 27, 28, 29, 28, 29, 30, 31, 32, 1]"

definition des_P :: "nat list" where
  "des_P = [16, 7, 20, 21, 29, 12, 28, 17, 1, 15, 23, 26, 5, 18, 31, 10,
            2, 8, 24, 14, 32, 27, 3, 9, 19, 13, 30, 6, 22, 11, 4, 25]"

definition des_PC1 :: "nat list" where
  "des_PC1 = [57, 49, 41, 33, 25, 17, 9, 1, 58, 50, 42, 34, 26, 18,
              10, 2, 59, 51, 43, 35, 27, 19, 11, 3, 60, 52, 44, 36,
              63, 55, 47, 39, 31, 23, 15, 7, 62, 54, 46, 38, 30, 22,
              14, 6, 61, 53, 45, 37, 29, 21, 13, 5, 28, 20, 12, 4]"

definition des_PC2 :: "nat list" where
  "des_PC2 = [14, 17, 11, 24, 1, 5, 3, 28, 15, 6, 21, 10,
              23, 19, 12, 4, 26, 8, 16, 7, 27, 20, 13, 2,
              41, 52, 31, 37, 47, 55, 30, 40, 51, 45, 33, 48,
              44, 49, 39, 56, 34, 53, 46, 42, 50, 36, 29, 32]"

definition des_shifts :: "nat list" where
  "des_shifts = [1, 1, 2, 2, 2, 2, 2, 2, 1, 2, 2, 2, 2, 2, 2, 1]"

definition des_S :: "nat list list" where
  "des_S = [
    [14, 4, 13, 1, 2, 15, 11, 8, 3, 10, 6, 12, 5, 9, 0, 7,
     0, 15, 7, 4, 14, 2, 13, 1, 10, 6, 12, 11, 9, 5, 3, 8,
     4, 1, 14, 8, 13, 6, 2, 11, 15, 12, 9, 7, 3, 10, 5, 0,
     15, 12, 8, 2, 4, 9, 1, 7, 5, 11, 3, 14, 10, 0, 6, 13],
    [15, 1, 8, 14, 6, 11, 3, 4, 9, 7, 2, 13, 12, 0, 5, 10,
     3, 13, 4, 7, 15, 2, 8, 14, 12, 0, 1, 10, 6, 9, 11, 5,
     0, 14, 7, 11, 10, 4, 13, 1, 5, 8, 12, 6, 9, 3, 2, 15,
     13, 8, 10, 1, 3, 15, 4, 2, 11, 6, 7, 12, 0, 5, 14, 9],
    [10, 0, 9, 14, 6, 3, 15, 5, 1, 13, 12, 7, 11, 4, 2, 8,
     13, 7, 0, 9, 3, 4, 6, 10, 2, 8, 5, 14, 12, 11, 15, 1,
     13, 6, 4, 9, 8, 15, 3, 0, 11, 1, 2, 12, 5, 10, 14, 7,
     1, 10, 13, 0, 6, 9, 8, 7, 4, 15, 14, 3, 11, 5, 2, 12],
    [7, 13, 14, 3, 0, 6, 9, 10, 1, 2, 8, 5, 11, 12, 4, 15,
     13, 8, 11, 5, 6, 15, 0, 3, 4, 7, 2, 12, 1, 10, 14, 9,
     10, 6, 9, 0, 12, 11, 7, 13, 15, 1, 3, 14, 5, 2, 8, 4,
     3, 15, 0, 6, 10, 1, 13, 8, 9, 4, 5, 11, 12, 7, 2, 14],
    [2, 12, 4, 1, 7, 10, 11, 6, 8, 5, 3, 15, 13, 0, 14, 9,
     14, 11, 2, 12, 4, 7, 13, 1, 5, 0, 15, 10, 3, 9, 8, 6,
     4, 2, 1, 11, 10, 13, 7, 8, 15, 9, 12, 5, 6, 3, 0, 14,
     11, 8, 12, 7, 1, 14, 2, 13, 6, 15, 0, 9, 10, 4, 5, 3],
    [12, 1, 10, 15, 9, 2, 6, 8, 0, 13, 3, 4, 14, 7, 5, 11,
     10, 15, 4, 2, 7, 12, 9, 5, 6, 1, 13, 14, 0, 11, 3, 8,
     9, 14, 15, 5, 2, 8, 12, 3, 7, 0, 4, 10, 1, 13, 11, 6,
     4, 3, 2, 12, 9, 5, 15, 10, 11, 14, 1, 7, 6, 0, 8, 13],
    [4, 11, 2, 14, 15, 0, 8, 13, 3, 12, 9, 7, 5, 10, 6, 1,
     13, 0, 11, 7, 4, 9, 1, 10, 14, 3, 5, 12, 2, 15, 8, 6,
     1, 4, 11, 13, 12, 3, 7, 14, 10, 15, 6, 8, 0, 5, 9, 2,
     6, 11, 13, 8, 1, 4, 10, 7, 9, 5, 0, 15, 14, 2, 3, 12],
    [13, 2, 8, 4, 6, 15, 11, 1, 10, 9, 3, 14, 5, 0, 12, 7,
     1, 15, 13, 8, 10, 3, 7, 4, 12, 5, 6, 11, 0, 14, 9, 2,
     7, 11, 4, 1, 9, 12, 14, 2, 0, 6, 10, 13, 15, 3, 5, 8,
     2, 1, 14, 7, 4, 10, 8, 13, 15, 12, 9, 0, 3, 5, 6, 11]]"

definition nat_of_bits :: "bool list \<Rightarrow> nat" where
  "nat_of_bits bs = foldl (\<lambda>acc b. 2 * acc + (if b then 1 else 0)) 0 bs"

definition bits4 :: "nat \<Rightarrow> bool list" where
  "bits4 n = map (\<lambda>k. odd (n div 2 ^ k)) [3, 2, 1, 0]"

definition des_sbox :: "nat \<Rightarrow> bool list \<Rightarrow> bool list" where
  "des_sbox j g =
     bits4 (des_S ! j ! (16 * nat_of_bits [g ! 0, g ! 5] + nat_of_bits [g ! 1, g ! 2, g ! 3, g ! 4]))"

definition des_f :: "bool list \<Rightarrow> bool list \<Rightarrow> bool list" where
  "des_f r k =
     (let x = xor_bits (permute des_E r) k
      in permute des_P (concat (map (\<lambda>j. des_sbox j (take 6 (drop (6 * j) x))) [0..<8])))"

fun des_subkeys :: "nat list \<Rightarrow> bool list \<Rightarrow> bool list \<Rightarrow> bool list list" where
  "des_subkeys [] c d = []"
| "des_subkeys (s # ss) c d =
     (let c' = rotate s c; d' = rotate s d
      in permute des_PC2 (c' @ d') # des_subkeys ss c' d')"

definition des_key_schedule :: "bytes \<Rightarrow> bool list list" where
  "des_key_schedule key =
     (let k = permute des_PC1 (bits_of_bytes key)
      in des_subkeys des_shifts (take 28 k) (drop 28 k))"

fun feistel :: "bool list list \<Rightarrow> bool list \<times> bool list \<Rightarrow> bool list \<times> bool list" where
  "feistel [] lr = lr"
| "feistel (k # ks) (l, r) = feistel ks (r, xor_bits l (des_f r k))"

definition des_crypt :: "bool list list \<Rightarrow> bytes \<Rightarrow> bytes" where
  "des_crypt ks blk =
     (let x = permute des_IP (bits_of_bytes blk)
      in case feistel ks (take 32 x, drop 32 x) of (l, r) \<Rightarrow>
           bytes_of_bits (permute des_FP (r @ l)))"

definition des_encrypt_block :: "bytes \<Rightarrow> bytes \<Rightarrow> bytes" where
  "des_encrypt_block key blk = des_crypt (des_key_schedule key) blk"

definition des_decrypt_block :: "bytes \<Rightarrow> bytes \<Rightarrow> bytes" where
  "des_decrypt_block key blk = des_crypt (rev (des_key_schedule key)) blk"

section \<open>Library: the AES block cipher of \<open>crypto/aes\<close>\<close>

text \<open>
  FIPS 197 encryption, the only direction CFB mode uses; the state is the 16 input bytes
  in column order.  Keys of 16, 24 and 32 bytes give 10, 12 and 14 rounds.
\<close>

definition aes_sbox :: "byte list" where
  "aes_sbox = [
   0x63, 0x7c, 0x77, 0x7b, 0xf2, 0x6b, 0x6f, 0xc5, 0x30, 0x01, 0x67, 0x2b, 0xfe, 0xd7, 0xab, 0x76,
   0xca, 0x82, 0xc9, 0x7d, 0xfa, 0x59, 0x47, 0xf0, 0xad, 0xd4, 0xa2, 0xaf, 0x9c, 0xa4, 0x72, 0xc0,
   0xb7, 0xfd, 0x93, 0x26, 0x36, 0x3f, 0xf7, 0xcc, 0x34, 0xa5, 0xe5, 0xf1, 0x71, 0xd8, 0x31, 0x15,
   0x04, 0xc7, 0x23, 0xc3, 0x18, 0x96, 0x05, 0x9a, 0x07, 0x12, 0x80, 0xe2, 0xeb, 0x27, 0xb2, 0x75,
   0x09, 0x83, 0x2c, 0x1a, 0x1b, 0x6e, 0x5a, 0xa0, 0x52, 0x3b, 0xd6, 0xb3, 0x29, 0xe3, 0x2f, 0x84,
   0x53, 0xd1, 0x00, 0xed, 0x20, 0xfc, 0xb1, 0x5b, 0x6a, 0xcb, 0xbe, 0x39, 0x4a, 0x4c, 0x58, 0xcf,
   0xd0, 0xef, 0xaa, 0xfb, 0x43, 0x4d, 0x33, 0x85, 0x45, 0xf9, 0x02, 0x7f, 0x50, 0x3c, 0x9f, 0xa8,
   0x51, 0xa3, 0x40, 0x8f, 0x92, 0x9d, 0x38, 0xf5, 0xbc, 0xb6, 0xda, 0x21, 0x10, 0xff, 0xf3, 0xd2,
   0xcd, 0x0c, 0x13, 0xec, 0x5f, 0x97, 0x44, 0x17, 0xc4, 0xa7, 0x7e, 0x3d, 0x64, 0x5d, 0x19, 0x73,
   0x60, 0x81, 0x4f, 0xdc, 0x22, 0x2a, 0x90, 0x88, 0x46, 0xee, 0xb8, 0x14, 0xde, 0x5e, 0x0b, 0xdb,
   0xe0, 0x32, 0x3a, 0x0a, 0x49, 0x06, 0x24, 0x5c, 0xc2, 0xd3, 0xac, 0x62, 0x91, 0x95, 0xe4, 0x79,
   0xe7, 0xc8, 0x37, 0x6d, 0x8d, 0xd5, 0x4e, 0xa9, 0x6c, 0x56, 0xf4, 0xea, 0x65, 0x7a, 0xae, 0x08,
   0xba, 0x78, 0x25, 0x2e, 0x1c, 0xa6, 0xb4, 0xc6, 0xe8, 0xdd, 0x74, 0x1f, 0x4b, 0xbd, 0x8b, 0x8a,
   0x70, 0x3e, 0xb5, 0x66, 0x48, 0x03, 0xf6, 0x0e, 0x61, 0x35, 0x57, 0xb9, 0x86, 0xc1, 0x1d, 0x9e,
   0xe1, 0xf8, 0x98, 0x11, 0x69, 0xd9, 0x8e, 0x94, 0x9b, 0x1e, 0x87, 0xe9, 0xce, 0x55, 0x28, 0xdf,
   0x8c, 0xa1, 0x89, 0x0d, 0xbf, 0xe6, 0x42, 0x68, 0x41, 0x99, 0x2d, 0x0f, 0xb0, 0x54, 0xbb, 0x16]"

definition sub_byte :: "byte \<Rightarrow> byte" where
  "sub_byte b = aes_sbox ! unat b"

definition xtime :: "byte \<Rightarrow> byte" where
  "xtime a = (if bit a 7 then push_bit 1 a XOR 0x1b else push_bit 1 a)"

definition shift_rows :: "bytes \<Rightarrow> bytes" where
  "shift_rows s = map (\<lambda>i. s ! (i mod 4 + 4 * ((i div 4 + i mod 4) mod 4))) [0..<16]"

definition mix_column :: "bytes \<Rightarrow> bytes" where
  "mix_column col =
     (case col of [a0, a1, a2, a3] \<Rightarrow>
        [xtime a0 XOR (xtime a1 XOR a1) XOR a2 XOR a3,
         a0 XOR xtime a1 XOR (xtime a2 XOR a2) XOR a3,
         a0 XOR a1 XOR xtime a2 XOR (xtime a3 XOR a3),
         (xtime a0 XOR a0) XOR a1 XOR a2 XOR xtime a3]
      | _ \<Rightarrow> col)"

definition mix_columns :: "bytes \<Rightarrow> bytes" where
  "mix_columns s = concat (map (\<lambda>c. mix_column (take 4 (drop (4 * c) s))) [0..<4])"

definition aes_rcon :: "nat \<Rightarrow> byte" where
  "aes_rcon j = (xtime ^^ (j - 1)) 1"

definition aes_expand_step :: "nat \<Rightarrow> bytes list \<Rightarrow> nat \<Rightarrow> bytes list" where
  "aes_expand_step nk w i =
     (let t = w ! (i - 1);
          t' = (if i mod nk = 0
                then xor_bytes (map sub_byte (rotate 1 t)) [aes_rcon (i div nk), 0, 0, 0]
                else if 6 < nk \<and> i mod nk = 4 then map sub_byte t
                else t)
      in w @ [xor_bytes (w ! (i - nk)) t'])"

definition aes_key_expansion :: "bytes \<Rightarrow> bytes list" where
  "aes_key_expansion key =
     (let nk = length key div 4;
          w0 = map (\<lambda>i. take 4 (drop (4 * i) key)) [0..<nk];
          w = foldl (aes_expand_step nk) w0 [nk..<4 * (nk + 7)]
      in map (\<lambda>r. concat (take 4 (drop (4 * r) w))) [0..<nk + 7])"

definition aes_round :: "bytes \<Rightarrow> bytes \<Rightarrow> bytes" where
  "aes_round s rk = xor_bytes (mix_columns (shift_rows (map sub_byte s))) rk"

definition aes_encrypt_block :: "bytes \<Rightarrow> bytes \<Rightarrow> bytes" where
  "aes_encrypt_block key blk =
     (let rks = aes_key_expansion key;
          s = foldl aes_round (xor_bytes blk (hd rks)) (butlast (tl rks))
      in xor_bytes (shift_rows (map sub_byte s)) (last rks))"

section \<open>Library: cipher modes of \<open>crypto/cipher\<close> and the streaming hash object\<close>

text \<open>CBC over whole blocks; CFB with a full-block feedback, the last chunk may be short.\<close>

fun cbc_encrypt :: "(bytes \<Rightarrow> bytes) \<Rightarrow> bytes \<Rightarrow> bytes list \<Rightarrow> bytes" where
  "cbc_encrypt E iv [] = []"
| "cbc_encrypt E iv (p # ps) = (let c = E (xor_bytes p iv) in c @ cbc_encrypt E c ps)"

fun cbc_decrypt :: "(bytes \<Rightarrow> bytes) \<Rightarrow> bytes \<Rightarrow> bytes list \<Rightarrow> bytes" where
  "cbc_decrypt D iv [] = []"
| "cbc_decrypt D iv (c # cs) = xor_bytes (D c) iv @ cbc_decrypt D c cs"

fun cfb_encrypt :: "(bytes \<Rightarrow> bytes) \<Rightarrow> bytes \<Rightarrow> bytes list \<Rightarrow> bytes" where
  "cfb_encrypt E iv [] = []"
| "cfb_encrypt E iv (p # ps) = (let c = xor_bytes p (E iv) in c @ cfb_encrypt E c ps)"

fun cfb_decrypt :: "(bytes \<Rightarrow> bytes) \<Rightarrow> bytes \<Rightarrow> bytes list \<Rightarrow> bytes" where
  "cfb_decrypt E iv [] = []"
| "cfb_decrypt E iv (c # cs) = xor_bytes c (E iv) @ cfb_decrypt E c cs"

text \<open>
  A \<open>hash.Hash\<close> is the digest function together with the bytes written so far:
  \<open>io.WriteString\<close> appends, \<open>Sum(nil)\<close> digests what was written, \<open>Reset\<close> forgets it.
\<close>

type_synonym hash = "(bytes \<Rightarrow> bytes) \<times> bytes"

definition md5_New :: hash where
  "md5_New = (md5, [])"

definition sha1_New :: hash where
  "sha1_New = (sha1, [])"

definition WriteString :: "hash \<Rightarrow> bytes \<Rightarrow> hash" where
  "WriteString h s = (fst h, snd h @ s)"

definition Sum :: "hash \<Rightarrow> bytes" where
  "Sum h = fst h (snd h)"

definition Reset :: "hash \<Rightarrow> hash" where
  "Reset h = (fst h, [])"

section \<open>The package: data\<close>

type_synonym Oid = "nat list"

text \<open>
  Modelled from the spec: \<open>Oid.Within\<close> lives in the package's OID file, which is not
  part of \<open>snmp.go\<close>.  ``A is within B iff A's sequence has B as a prefix.''
  \<open>Oid.String\<close> and \<open>MustParseOid\<close> are taken to be inverse to each other, so a map keyed
  by the text of an OID is a map keyed by the OID.
\<close>

definition Within :: "Oid \<Rightarrow> Oid \<Rightarrow> bool" where
  "Within a b = (take (length b) a = b)"

text \<open>
  The values the codec exchanges with \<open>snmp.go\<close> (Go's \<open>interface{}\<close>): a tag marker
  (\<open>BERType\<close>), an \<open>int\<close>, a \<open>string\<close>, an \<open>Oid\<close>, \<open>nil\<close>, or a nested
  \<open>[]interface{}\<close>.
\<close>

datatype ber =
    BerType nat
  | BerInt int
  | BerStr bytes
  | BerOid Oid
  | BerNull
  | BerSeq "ber list"

text \<open>
  Modelled from the spec: the tag bytes are constants of the package's codec file
  (section 4.A of the specification lists them).
\<close>

definition Sequence :: nat where "Sequence = 0x30"
definition AsnGetRequest :: nat where "AsnGetRequest = 0xA0"
definition AsnGetNextRequest :: nat where "AsnGetNextRequest = 0xA1"
definition AsnGetBulkRequest :: nat where "AsnGetBulkRequest = 0xA5"

text \<open>
  \<open>EncodeSequence\<close> and \<open>DecodeSequence\<close> belong to the same codec file; every
  operation takes them as a parameter.  Each returns its bytes or values, or an error text.
\<close>

record codec =
  EncodeSequence :: "ber list \<Rightarrow> string + bytes"
  DecodeSequence :: "bytes \<Rightarrow> string + ber list"

text \<open>Type assertions \<open>x.(T)\<close> panic when the dynamic type differs.\<close>

definition asSeq :: "ber \<Rightarrow> error + ber list" where
  "asSeq x = (case x of BerSeq xs \<Rightarrow> Inr xs | _ \<Rightarrow> Inl (Panic ''interface conversion''))"

definition asString :: "ber \<Rightarrow> error + bytes" where
  "asString x = (case x of BerStr s \<Rightarrow> Inr s | _ \<Rightarrow> Inl (Panic ''interface conversion''))"

definition asInt :: "ber \<Rightarrow> error + int" where
  "asInt x = (case x of BerInt n \<Rightarrow> Inr n | _ \<Rightarrow> Inl (Panic ''interface conversion''))"

definition asOid :: "ber \<Rightarrow> error + Oid" where
  "asOid x = (case x of BerOid n \<Rightarrow> Inr n | _ \<Rightarrow> Inl (Panic ''interface conversion''))"

record V3user =
  User :: bytes
  AuthAlg :: string
  AuthPwd :: bytes
  PrivAlg :: string
  PrivPwd :: bytes

text \<open>
  The session object.  \<open>timeout\<close> is a \<open>time.Duration\<close>, in nanoseconds.  The socket
  \<open>conn\<close> is not a field here: it is the \<open>conn\<close> argument of every operation that uses it.
\<close>

record SNMP =
  Target :: string
  Community :: bytes
  Version :: int
  timeout :: int
  retries :: int
  user :: bytes
  authAlg :: string
  authPwd :: bytes
  privAlg :: string
  privPwd :: bytes
  engineID :: bytes
  authKey :: bytes
  privKey :: bytes
  engineBoots :: "32 word"
  engineTime :: "32 word"
  desIV :: "32 word"
  aesIV :: "64 word"
  TrapUsers :: "V3user list"

record Trap =
  trapVersion :: int
  OID :: Oid
  trapCommunity :: bytes
  Username :: bytes
  Address :: bytes
  VarBinds :: "Oid \<rightharpoonup> ber"

definition bufSize :: nat where "bufSize = 16384"
definition maxMsgSize :: int where "maxMsgSize = 65500"
definition SnmpAES :: string where "SnmpAES = ''AES''"
definition Millisecond :: int where "Millisecond = 1000000"

section \<open>The package: key derivation\<close>

text \<open>The loop \<open>for count < repeat { io.WriteString(h, password); count++ }\<close>.\<close>

fun write_repeat :: "nat \<Rightarrow> hash \<Rightarrow> bytes \<Rightarrow> hash" where
  "write_repeat 0 h password = h"
| "write_repeat (Suc n) h password = write_repeat n (WriteString h password) password"

definition passwordToKey :: "bytes \<Rightarrow> bytes \<Rightarrow> string \<Rightarrow> error + bytes" where
  "passwordToKey password engID hashAlg =
     (let h = (if hashAlg = ''MD5'' then md5_New else sha1_New);
          plen = length password
      in if plen = 0 then Inl (Panic ''integer divide by zero'')
         else
           let repeat = 1048576 div plen;
               remain = 1048576 mod plen;
               h1 = write_repeat repeat h password;
               h2 = (if remain > 0 then WriteString h1 (take remain password) else h1);
               ku = Sum h2;
               h3 = WriteString (WriteString (WriteString (Reset h2) ku) engID) ku
           in Inr (Sum h3))"

text \<open>
  The block \<open>//keys\<close>, the same three lines in \<open>Discover\<close> and in \<open>ParseTrap\<close>: both keys
  come from \<open>passwordToKey\<close> under \<open>w.authAlg\<close>, and \<open>privKey\<close> keeps bytes \<open>[0:16]\<close>.
\<close>

definition derive_keys :: "SNMP \<Rightarrow> error + SNMP" where
  "derive_keys w =
     bindE (passwordToKey (authPwd w) (engineID w) (authAlg w)) (\<lambda>ak.
     bindE (passwordToKey (privPwd w) (engineID w) (authAlg w)) (\<lambda>pk.
     bindE (substr pk 0 16) (\<lambda>pk16.
     Inr (w\<lparr>authKey := ak, privKey := pk16\<rparr>))))"

section \<open>The package: constructors\<close>


definition NewSNMP :: "string \<Rightarrow> bytes \<Rightarrow> int \<Rightarrow> int \<Rightarrow> int \<Rightarrow> string option \<Rightarrow> error + SNMP" where
  "NewSNMP target community version tmo rtr dial =
     (case dial of
        Some e \<Rightarrow> Inl (DialErr e)
      | None \<Rightarrow> Inr \<lparr>Target = target, Community = community, Version = version, timeout = tmo,
                 retries = rtr, user = [], authAlg = [], authPwd = [], privAlg = [],
                 privPwd = [], engineID = [], authKey = [], privKey = [], engineBoots = 0,
                 engineTime = 0, desIV = 0, aesIV = 0, TrapUsers = []\<rparr>)"

section \<open>The package: transport\<close>

text \<open>
  One attempt of \<open>poll\<close> as the socket and the clock present it: the two readings of
  \<open>time.Now()\<close>, and the outcome of each call on the connection given its arguments (the
  deadline in force, the bytes written).  A connection answers every attempt by its number.
\<close>

record attempt =
  now_write :: int
  SetWriteDeadline :: "int \<Rightarrow> string option"
  Write :: "int \<Rightarrow> bytes \<Rightarrow> string option"
  now_read :: int
  SetReadDeadline :: "int \<Rightarrow> string option"
  Read :: "int \<Rightarrow> bytes \<Rightarrow> string + bytes"

type_synonym conn = "nat \<Rightarrow> attempt"

text \<open>
  \<open>poll_loop c toSend bufLen tmo n i err\<close> runs the \<open>n\<close> iterations that remain from
  iteration \<open>i\<close> on, \<open>err\<close> being the error of the last failed step.  The result is
  \<open>respondBuffer[:numRead]\<close>; with no iteration at all the Go code returns \<open>0, nil\<close>.
\<close>

fun poll_loop ::
  "conn \<Rightarrow> bytes \<Rightarrow> nat \<Rightarrow> int \<Rightarrow> nat \<Rightarrow> nat \<Rightarrow> string option \<Rightarrow> error + bytes" where
  "poll_loop c toSend bufLen tmo 0 i err =
     (case err of None \<Rightarrow> Inr [] | Some e \<Rightarrow> Inl (NetErr e))"
| "poll_loop c toSend bufLen tmo (Suc n) i err =
     (let a = c i; deadline = now_write a + tmo in
      case SetWriteDeadline a deadline of
        Some e \<Rightarrow> poll_loop c toSend bufLen tmo n (Suc i) (Some e)
      | None \<Rightarrow>
         (case Write a deadline toSend of
            Some e \<Rightarrow> poll_loop c toSend bufLen tmo n (Suc i) (Some e)
          | None \<Rightarrow>
             (let deadline2 = now_read a + tmo in
              case SetReadDeadline a deadline2 of
                Some e \<Rightarrow> poll_loop c toSend bufLen tmo n (Suc i) (Some e)
              | None \<Rightarrow>
                 (case Read a deadline2 toSend of
                    Inl e \<Rightarrow> poll_loop c toSend bufLen tmo n (Suc i) (Some e)
                  | Inr datagram \<Rightarrow> Inr (take bufLen datagram)))))"

text \<open>
  Go's \<open>int\<close> has 64 bits and \<open>retries+1\<close> wraps around at the largest value; the
  loop \<open>for i := 0; i < retries+1; i++\<close> then runs no iteration at all.
\<close>

definition wrap_int64 :: "int \<Rightarrow> int" where
  "wrap_int64 n = (n + 2 ^ 63) mod 2 ^ 64 - 2 ^ 63"

definition poll :: "conn \<Rightarrow> bytes \<Rightarrow> nat \<Rightarrow> int \<Rightarrow> int \<Rightarrow> error + bytes" where
  "poll c toSend bufLen rtr tmo =
     poll_loop c toSend bufLen tmo (nat (wrap_int64 (rtr + 1))) 0 None"

section \<open>The package: v1/v2c requests\<close>

text \<open>
  \<open>requestID\<close> (and \<open>msgID\<close> below) is the value \<open>getRandomRequestID()\<close> returned.
  A Go map from OID text to value is a map from OIDs to values.
\<close>

definition Get :: "codec \<Rightarrow> conn \<Rightarrow> SNMP \<Rightarrow> Oid \<Rightarrow> int \<Rightarrow> error + ber" where
  "Get cdc c w oid requestID =
     bindE (orReturn EncodeErr (EncodeSequence cdc
        [BerType Sequence, BerInt (Version w), BerStr (Community w),
         BerSeq [BerType AsnGetRequest, BerInt requestID, BerInt 0, BerInt 0,
           BerSeq [BerType Sequence,
             BerSeq [BerType Sequence, BerOid oid, BerNull]]]])) (\<lambda>req.
     bindE (poll c req bufSize (retries w) (500 * Millisecond)) (\<lambda>response.
     bindE (orReturn DecodeErr (DecodeSequence cdc response)) (\<lambda>decodedResponse.
     bindE (index decodedResponse 3) (\<lambda>x3.
     bindE (asSeq x3) (\<lambda>respPacket.
     bindE (index respPacket 4) (\<lambda>x4.
     bindE (asSeq x4) (\<lambda>varbinds.
     bindE (index varbinds 1) (\<lambda>x1.
     bindE (asSeq x1) (\<lambda>vb.
     index vb 2)))))))))"

text \<open>
  The loop \<open>for _, v := range respVarbinds[1:]\<close> of \<open>GetMultiple\<close> and \<open>GetBulk\<close>: each
  varbind stores its value under its OID, a later duplicate overwriting an earlier one.
\<close>

fun collect_varbinds :: "ber list \<Rightarrow> (Oid \<rightharpoonup> ber) \<Rightarrow> error + (Oid \<rightharpoonup> ber)" where
  "collect_varbinds [] result = Inr result"
| "collect_varbinds (v # vs) result =
     bindE (asSeq v) (\<lambda>s1.
     bindE (index s1 1) (\<lambda>o1.
     bindE (asOid o1) (\<lambda>oid.
     bindE (asSeq v) (\<lambda>s2.
     bindE (index s2 2) (\<lambda>val.
     collect_varbinds vs (result(oid \<mapsto> val)))))))"

definition response_varbinds :: "ber list \<Rightarrow> error + (Oid \<rightharpoonup> ber)" where
  "response_varbinds decodedResponse =
     bindE (index decodedResponse 3) (\<lambda>x3.
     bindE (asSeq x3) (\<lambda>respPacket.
     bindE (index respPacket 4) (\<lambda>x4.
     bindE (asSeq x4) (\<lambda>respVarbinds.
     bindE (substr respVarbinds 1 (length respVarbinds)) (\<lambda>rest.
     collect_varbinds rest Map.empty)))))"

definition GetMultiple ::
  "codec \<Rightarrow> conn \<Rightarrow> SNMP \<Rightarrow> Oid list \<Rightarrow> int \<Rightarrow> error + (Oid \<rightharpoonup> ber)" where
  "GetMultiple cdc c w oids requestID =
     (let varbinds = BerType Sequence # map (\<lambda>oid. BerSeq [BerType Sequence, BerOid oid, BerNull]) oids
      in
      bindE (orReturn EncodeErr (EncodeSequence cdc
        [BerType Sequence, BerInt (Version w), BerStr (Community w),
         BerSeq [BerType AsnGetRequest, BerInt requestID, BerInt 0, BerInt 0,
           BerSeq varbinds]])) (\<lambda>req.
      bindE (poll c req bufSize (retries w) (500 * Millisecond)) (\<lambda>response.
      bindE (orReturn DecodeErr (DecodeSequence cdc response)) (\<lambda>decodedResponse.
      response_varbinds decodedResponse))))"

definition GetNext :: "codec \<Rightarrow> conn \<Rightarrow> SNMP \<Rightarrow> Oid \<Rightarrow> int \<Rightarrow> error + Oid \<times> ber" where
  "GetNext cdc c w oid requestID =
     bindE (orReturn EncodeErr (EncodeSequence cdc
        [BerType Sequence, BerInt (Version w), BerStr (Community w),
         BerSeq [BerType AsnGetNextRequest, BerInt requestID, BerInt 0, BerInt 0,
           BerSeq [BerType Sequence,
             BerSeq [BerType Sequence, BerOid oid, BerNull]]]])) (\<lambda>req.
     bindE (poll c req bufSize (retries w) (500 * Millisecond)) (\<lambda>response.
     bindE (orReturn DecodeErr (DecodeSequence cdc response)) (\<lambda>decodedResponse.
     bindE (index decodedResponse 3) (\<lambda>x3.
     bindE (asSeq x3) (\<lambda>respPacket.
     bindE (index respPacket 4) (\<lambda>x4.
     bindE (asSeq x4) (\<lambda>varbinds.
     bindE (index varbinds 1) (\<lambda>x1.
     bindE (asSeq x1) (\<lambda>result.
     bindE (index result 1) (\<lambda>r1.
     bindE (asOid r1) (\<lambda>resultOid.
     bindE (index result 2) (\<lambda>resultVal.
     Inr (resultOid, resultVal)))))))))))))"

definition GetBulk ::
  "codec \<Rightarrow> conn \<Rightarrow> SNMP \<Rightarrow> Oid \<Rightarrow> int \<Rightarrow> int \<Rightarrow> error + (Oid \<rightharpoonup> ber)" where
  "GetBulk cdc c w oid maxRepetitions requestID =
     bindE (orReturn EncodeErr (EncodeSequence cdc
        [BerType Sequence, BerInt (Version w), BerStr (Community w),
         BerSeq [BerType AsnGetBulkRequest, BerInt requestID, BerInt 0, BerInt maxRepetitions,
           BerSeq [BerType Sequence,
             BerSeq [BerType Sequence, BerOid oid, BerNull]]]])) (\<lambda>req.
     bindE (poll c req bufSize (retries w) (500 * Millisecond)) (\<lambda>response.
     bindE (orReturn DecodeErr (DecodeSequence cdc response)) (\<lambda>decodedResponse.
     response_varbinds decodedResponse)))"

section \<open>The package: table walk\<close>

text \<open>
  One pass of \<open>for o, v := range results\<close>: an entry within the root is stored, and
  \<open>newLastOid\<close> is overwritten by every entry visited.  \<open>results\<close> is a Go map, and the
  order in which \<open>range\<close> visits a map is left open by the language; the list given here
  is the map's entries in the order of that visit.
\<close>

definition table_step :: "Oid \<Rightarrow> (Oid \<rightharpoonup> ber) \<times> Oid \<Rightarrow> Oid \<times> ber \<Rightarrow> (Oid \<rightharpoonup> ber) \<times> Oid" where
  "table_step root st e =
     (case st of (result, newLastOid) \<Rightarrow>
        case e of (oAsOid, v) \<Rightarrow>
          ((if Within oAsOid root then result(oAsOid \<mapsto> v) else result), oAsOid))"

definition table_round :: "Oid \<Rightarrow> (Oid \<rightharpoonup> ber) \<Rightarrow> Oid \<Rightarrow> (Oid \<times> ber) list \<Rightarrow> (Oid \<rightharpoonup> ber) \<times> Oid" where
  "table_round root result lastOid results = foldl (table_step root) (result, lastOid) results"

text \<open>
  \<open>bulk k cursor\<close> is the outcome of the \<open>k\<close>-th call \<open>w.GetBulk(lastOid, 50)\<close>, its map
  listed in visiting order.  An error that \<open>GetBulk\<close> returns is wrapped and returned; a
  panic inside \<open>GetBulk\<close> is not a return and stays a panic.  The loop has no bound of
  its own, so the function counts rounds down from \<open>fuel\<close>: \<open>None\<close> means the walk
  was still going when the fuel ran out.
\<close>

fun GetTable_loop ::
  "(nat \<Rightarrow> Oid \<Rightarrow> error + (Oid \<times> ber) list) \<Rightarrow> Oid \<Rightarrow> nat \<Rightarrow> nat \<Rightarrow> Oid \<Rightarrow> (Oid \<rightharpoonup> ber)
   \<Rightarrow> (error + (Oid \<rightharpoonup> ber)) option" where
  "GetTable_loop bulk root 0 k lastOid result =
     (if Within lastOid root then None else Some (Inr result))"
| "GetTable_loop bulk root (Suc fuel) k lastOid result =
     (if Within lastOid root then
        (case bulk k lastOid of
           Inl (Panic m) \<Rightarrow> Some (Inl (Panic m))
         | Inl err \<Rightarrow> Some (Inl (GetBulkErr err))
         | Inr results \<Rightarrow>
            (case table_round root result lastOid results of (result', newLastOid) \<Rightarrow>
               if lastOid = newLastOid then Some (Inr result')
               else GetTable_loop bulk root fuel (Suc k) newLastOid result'))
      else Some (Inr result))"

definition GetTable ::
  "(nat \<Rightarrow> Oid \<Rightarrow> error + (Oid \<times> ber) list) \<Rightarrow> nat \<Rightarrow> Oid \<Rightarrow> (error + (Oid \<rightharpoonup> ber)) option" where
  "GetTable bulk fuel oid = GetTable_loop bulk oid fuel 0 oid Map.empty"

section \<open>The package: v3 security\<close>

text \<open>
  The four cipher wrappers.  Each returns the new contents of \<open>dst\<close>.  \<open>NewCipher\<close>
  rejects a key of the wrong size with an error; the mode constructors panic on an IV that
  is not one block long, and \<open>CryptBlocks\<close> panics on input that is not whole blocks or on
  a \<open>dst\<close> shorter than \<open>src\<close>.  \<open>decryptAESCFB\<close> answers a key error with \<open>return nil\<close>,
  leaving \<open>dst\<close> as it was.
\<close>

definition encryptDESCBC :: "bytes \<Rightarrow> bytes \<Rightarrow> bytes \<Rightarrow> bytes \<Rightarrow> error + bytes" where
  "encryptDESCBC dst src key iv =
     (if length key \<noteq> 8 then Inl (KeySizeError (length key))
      else if length iv \<noteq> 8 then
        Inl (Panic ''cipher.NewCBCEncrypter: IV length must equal block size'')
      else if length src mod 8 \<noteq> 0 then Inl (Panic ''crypto/cipher: input not full blocks'')
      else if length dst < length src then
        Inl (Panic ''crypto/cipher: output smaller than input'')
      else Inr (cbc_encrypt (des_encrypt_block key) iv (chunks 8 src) @ drop (length src) dst))"

definition decryptDESCBC :: "bytes \<Rightarrow> bytes \<Rightarrow> bytes \<Rightarrow> bytes \<Rightarrow> error + bytes" where
  "decryptDESCBC dst src key iv =
     (if length key \<noteq> 8 then Inl (KeySizeError (length key))
      else if length iv \<noteq> 8 then
        Inl (Panic ''cipher.NewCBCDecrypter: IV length must equal block size'')
      else if length src mod 8 \<noteq> 0 then Inl (Panic ''crypto/cipher: input not full blocks'')
      else if length dst < length src then
        Inl (Panic ''crypto/cipher: output smaller than input'')
      else Inr (cbc_decrypt (des_decrypt_block key) iv (chunks 8 src) @ drop (length src) dst))"

definition aes_key_ok :: "bytes \<Rightarrow> bool" where
  "aes_key_ok key = (length key = 16 \<or> length key = 24 \<or> length key = 32)"

definition encryptAESCFB :: "bytes \<Rightarrow> bytes \<Rightarrow> bytes \<Rightarrow> bytes \<Rightarrow> error + bytes" where
  "encryptAESCFB dst src key iv =
     (if \<not> aes_key_ok key then Inl (KeySizeError (length key))
      else if length iv \<noteq> 16 then
        Inl (Panic ''cipher.NewCFBEncrypter: IV length must equal block size'')
      else if length dst < length src then
        Inl (Panic ''crypto/cipher: output smaller than input'')
      else Inr (cfb_encrypt (aes_encrypt_block key) iv (chunks 16 src) @ drop (length src) dst))"

definition decryptAESCFB :: "bytes \<Rightarrow> bytes \<Rightarrow> bytes \<Rightarrow> bytes \<Rightarrow> error + bytes" where
  "decryptAESCFB dst src key iv =
     (if \<not> aes_key_ok key then Inr dst
      else if length iv \<noteq> 16 then
        Inl (Panic ''cipher.NewCFBDecrypter: IV length must equal block size'')
      else if length dst < length src then
        Inl (Panic ''crypto/cipher: output smaller than input'')
      else Inr (cfb_decrypt (aes_encrypt_block key) iv (chunks 16 src) @ drop (length src) dst))"

definition strXor :: "bytes \<Rightarrow> bytes \<Rightarrow> error + bytes" where
  "strXor s1 s2 =
     (if length s1 \<noteq> length s2 then
        Inl (Panic ''strXor called with two strings of different length'')
      else Inr (map (\<lambda>i. s1 ! i XOR s2 ! i) [0..<length s1]))"

definition auth :: "SNMP \<Rightarrow> bytes \<Rightarrow> error + bytes" where
  "auth w wholeMsg =
     (let padLen = 64 - int (length (authKey w)) in
      bindE (Repeat [0] padLen) (\<lambda>pad.
      let eAuthKey = authKey w @ pad in
      bindE (Repeat [0x36] 64) (\<lambda>ipad.
      bindE (Repeat [0x5C] 64) (\<lambda>opad.
      bindE (strXor eAuthKey ipad) (\<lambda>k1.
      bindE (strXor eAuthKey opad) (\<lambda>k2.
      let h = (if authAlg w = ''MD5'' then md5_New else sha1_New);
          tmp1 = Sum (WriteString h (k1 @ wholeMsg));
          h2 = WriteString (Reset h) (k2 @ tmp1)
      in substr (Sum h2) 0 12))))))"

text \<open>
  \<open>encrypt\<close> and \<open>decrypt\<close> have the receiver \<open>(w SNMP)\<close>: they work on a copy of the
  session.  \<open>w.aesIV++\<close> and \<open>w.desIV++\<close> change that copy, which is dropped at return, so
  the only results are the values returned: ciphertext and priv-param, or an error.
\<close>

definition encrypt :: "SNMP \<Rightarrow> bytes \<Rightarrow> error + bytes \<times> bytes" where
  "encrypt w payload =
     (let buf = bytes_be32 (engineBoots w) in
      if privAlg w = SnmpAES then
        (let buf2 = bytes_be32 (engineTime w);
             aesIV' = aesIV w + 1;
             privParam = bytes_be64 aesIV';
             iv = buf @ buf2 @ privParam
         in bindE (encryptAESCFB (replicate (length payload) 0) payload (privKey w) iv)
              (\<lambda>encrypted. Inr (encrypted, privParam)))
      else
        bindE (substr (privKey w) 0 8) (\<lambda>desKey.
        bindE (substr (privKey w) 8 16) (\<lambda>preIV.
        let desIV' = desIV w + 1;
            privParam = buf @ bytes_be32 desIV'
        in bindE (strXor preIV privParam) (\<lambda>iv.
           let plen = length payload;
               padded = (if plen mod 8 \<noteq> 0 then payload @ replicate (8 - plen mod 8) 0
                         else payload);
               zeros = replicate (length padded) 0
           in bindE (discardErr zeros (encryptDESCBC zeros padded desKey iv))
                (\<lambda>encrypted. Inr (encrypted, privParam))))))"

definition decrypt :: "SNMP \<Rightarrow> bytes \<Rightarrow> bytes \<Rightarrow> error + bytes" where
  "decrypt w payload privParam =
     (let buf = bytes_be32 (engineBoots w) in
      if privAlg w = SnmpAES then
        (let buf2 = bytes_be32 (engineTime w);
             iv = buf @ buf2 @ privParam
         in decryptAESCFB (replicate (length payload) 0) payload (privKey w) iv)
      else
        bindE (substr (privKey w) 0 8) (\<lambda>desKey.
        bindE (substr (privKey w) 8 16) (\<lambda>preIV.
        bindE (strXor preIV privParam) (\<lambda>iv.
        if length payload mod 8 \<noteq> 0 then
          Inl (Panic ''DES encrypted payload is not multiple of 8 bytes'')
        else
          let zeros = replicate (length payload) 0
          in discardErr zeros (decryptDESCBC zeros payload desKey iv)))))"

section \<open>The package: discovery\<close>

text \<open>
  \<open>rand63\<close> and \<open>rand32\<close> are the values of \<open>rand.Int63()\<close> and \<open>rand.Uint32()\<close>.  The
  receiver is a pointer: the result is the session as \<open>Discover\<close> leaves it.
\<close>

definition Discover ::
  "codec \<Rightarrow> conn \<Rightarrow> int \<Rightarrow> int \<Rightarrow> 64 word \<Rightarrow> 32 word \<Rightarrow> SNMP \<Rightarrow> error + SNMP" where
  "Discover cdc c msgID requestID rand63 rand32 w =
     (let v3Header = (case EncodeSequence cdc
                        [BerType Sequence, BerStr [], BerInt 0, BerInt 0, BerStr [], BerStr [],
                         BerStr []] of Inl _ \<Rightarrow> [] | Inr b \<Rightarrow> b);
          flags = [4];
          USM = 3
      in
      bindE (orPanic (EncodeSequence cdc
        [BerType Sequence, BerInt (Version w),
         BerSeq [BerType Sequence, BerInt msgID, BerInt maxMsgSize, BerStr flags, BerInt USM],
         BerStr v3Header,
         BerSeq [BerType Sequence, BerStr [], BerStr [],
           BerSeq [BerType AsnGetRequest, BerInt requestID, BerInt 0, BerInt 0,
             BerSeq [BerType Sequence]]]])) (\<lambda>req.
      bindE (poll c req bufSize (retries w) (500 * Millisecond)) (\<lambda>response.
      bindE (orPanic (DecodeSequence cdc response)) (\<lambda>decodedResponse.
      bindE (index decodedResponse 3) (\<lambda>x3.
      bindE (asString x3) (\<lambda>v3HeaderStr.
      bindE (orReturn DecodeErr (DecodeSequence cdc v3HeaderStr)) (\<lambda>v3HeaderDecoded.
      bindE (index v3HeaderDecoded 1) (\<lambda>h1.
      bindE (asString h1) (\<lambda>eid.
      bindE (index v3HeaderDecoded 2) (\<lambda>h2.
      bindE (asInt h2) (\<lambda>boots.
      bindE (index v3HeaderDecoded 3) (\<lambda>h3.
      bindE (asInt h3) (\<lambda>tm.
      derive_keys (w\<lparr>engineID := eid, engineBoots := word_of_int boots,
                     engineTime := word_of_int tm, aesIV := rand63,
                     desIV := rand32\<rparr>))))))))))))))"

section \<open>The package: v3 requests\<close>

text \<open>
  Lines 470 to 500 of \<open>doGetV3\<close>: the scoped PDU is encoded and encrypted, the security
  parameters are encoded with twelve zero bytes for auth-param, the outer message is
  encoded, authenticated, and the digest replaces the first run of twelve zero bytes.
\<close>

definition v3_packet ::
  "codec \<Rightarrow> SNMP \<Rightarrow> int \<Rightarrow> bytes \<Rightarrow> bytes \<Rightarrow> bytes \<Rightarrow> error + bytes" where
  "v3_packet cdc w msgID authParam privParam encrypted =
     bindE (orPanic (EncodeSequence cdc
        [BerType Sequence, BerStr (engineID w), BerInt (sint (engineBoots w)),
         BerInt (sint (engineTime w)), BerStr (user w), BerStr authParam,
         BerStr privParam])) (\<lambda>v3Header.
     let flags = [7]; USM = 3 in
     orPanic (EncodeSequence cdc
        [BerType Sequence, BerInt (Version w),
         BerSeq [BerType Sequence, BerInt msgID, BerInt maxMsgSize, BerStr flags, BerInt USM],
         BerStr v3Header,
         BerStr encrypted]))"

definition sign_packet :: "SNMP \<Rightarrow> bytes \<Rightarrow> error + bytes" where
  "sign_packet w packet =
     bindE (auth w packet) (\<lambda>authParam.
     bindE (Repeat [0] 12) (\<lambda>zeros.
     Inr (Replace_first packet zeros authParam)))"

definition doGetV3_request ::
  "codec \<Rightarrow> SNMP \<Rightarrow> Oid \<Rightarrow> nat \<Rightarrow> int \<Rightarrow> int \<Rightarrow> error + bytes" where
  "doGetV3_request cdc w oid request msgID requestID =
     bindE (orPanic (EncodeSequence cdc
        [BerType Sequence, BerStr (engineID w), BerStr [],
         BerSeq [BerType request, BerInt requestID, BerInt 0, BerInt 0,
           BerSeq [BerType Sequence,
             BerSeq [BerType Sequence, BerOid oid, BerNull]]]])) (\<lambda>req.
     bindE (discardErr ([], []) (encrypt w req)) (\<lambda>(encrypted, privParam).
     bindE (Repeat [0] 12) (\<lambda>zeros.
     bindE (v3_packet cdc w msgID zeros privParam encrypted) (\<lambda>packet.
     sign_packet w packet))))"

text \<open>
  Lines 508 to 554: the reply is decoded, the engine parameters of its header are stored in
  the session (the receiver is a pointer), and the scoped PDU is decrypted and decoded.  The
  second component is the session as the call leaves it.
\<close>

definition doGetV3_pdu :: "codec \<Rightarrow> SNMP \<Rightarrow> ber list \<Rightarrow> ber list \<Rightarrow> error + Oid \<times> ber" where
  "doGetV3_pdu cdc w decodedResponse v3HeaderDecoded =
     bindE (index v3HeaderDecoded 5) (\<lambda>h5.
     bindE (asString h5) (\<lambda>respAuthParam.
     bindE (index v3HeaderDecoded 6) (\<lambda>h6.
     bindE (asString h6) (\<lambda>respPrivParam.
     if length respAuthParam = 0 \<or> length respPrivParam = 0 then Inl NotEncrypted
     else
       bindE (index decodedResponse 4) (\<lambda>x4.
       bindE (asString x4) (\<lambda>encryptedResp.
       bindE (discardErr [] (decrypt w encryptedResp respPrivParam)) (\<lambda>plainResp.
       bindE (orReturn DecodeErr (DecodeSequence cdc plainResp)) (\<lambda>pduDecoded.
       bindE (index pduDecoded 3) (\<lambda>p3.
       bindE (asSeq p3) (\<lambda>respPacket.
       bindE (index respPacket 4) (\<lambda>p4.
       bindE (asSeq p4) (\<lambda>varbinds.
       bindE (index varbinds 1) (\<lambda>v1.
       bindE (asSeq v1) (\<lambda>result.
       bindE (index result 1) (\<lambda>r1.
       bindE (asOid r1) (\<lambda>resultOid.
       bindE (index result 2) (\<lambda>resultVal.
       Inr (resultOid, resultVal))))))))))))))))))"

definition doGetV3_response :: "codec \<Rightarrow> SNMP \<Rightarrow> bytes \<Rightarrow> (error + Oid \<times> ber) \<times> SNMP" where
  "doGetV3_response cdc w response =
     (case orReturn DecodeErr (DecodeSequence cdc response) of
        Inl e \<Rightarrow> (Inl e, w)
      | Inr decodedResponse \<Rightarrow>
         (case bindE (index decodedResponse 3) asString of
            Inl e \<Rightarrow> (Inl e, w)
          | Inr v3HeaderStr \<Rightarrow>
             (case orReturn DecodeErr (DecodeSequence cdc v3HeaderStr) of
                Inl e \<Rightarrow> (Inl e, w)
              | Inr v3HeaderDecoded \<Rightarrow>
                 (case bindE (index v3HeaderDecoded 1) asString of
                    Inl e \<Rightarrow> (Inl e, w)
                  | Inr eid \<Rightarrow>
                     (case bindE (index v3HeaderDecoded 2) asInt of
                        Inl e \<Rightarrow> (Inl e, w\<lparr>engineID := eid\<rparr>)
                      | Inr boots \<Rightarrow>
                         (case bindE (index v3HeaderDecoded 3) asInt of
                            Inl e \<Rightarrow>
                              (Inl e, w\<lparr>engineID := eid, engineBoots := word_of_int boots\<rparr>)
                          | Inr tm \<Rightarrow>
                             (let w' = w\<lparr>engineID := eid, engineBoots := word_of_int boots,
                                         engineTime := word_of_int tm\<rparr>
                              in (doGetV3_pdu cdc w' decodedResponse v3HeaderDecoded, w'))))))))"

definition doGetV3 ::
  "codec \<Rightarrow> conn \<Rightarrow> SNMP \<Rightarrow> Oid \<Rightarrow> nat \<Rightarrow> int \<Rightarrow> int \<Rightarrow> (error + Oid \<times> ber) \<times> SNMP" where
  "doGetV3 cdc c w oid request msgID requestID =
     (case doGetV3_request cdc w oid request msgID requestID of
        Inl e \<Rightarrow> (Inl e, w)
      | Inr finalPacket \<Rightarrow>
         (case poll c finalPacket bufSize (retries w) (500 * Millisecond) of
            Inl e \<Rightarrow> (Inl e, w)
          | Inr response \<Rightarrow> doGetV3_response cdc w response))"


definition GetV3 ::
  "codec \<Rightarrow> conn \<Rightarrow> SNMP \<Rightarrow> Oid \<Rightarrow> int \<Rightarrow> int \<Rightarrow> (error + ber) \<times> SNMP" where
  "GetV3 cdc c w oid msgID requestID =
     (case doGetV3 cdc c w oid AsnGetRequest msgID requestID of
        (r, w') \<Rightarrow> (bindE r (\<lambda>(resultOid, val). Inr val), w'))"

section \<open>The package: traps\<close>

text \<open>
  Lines 689 to 729 of \<open>ParseTrap\<close>: the receiver is a value, so everything stored in
  \<open>w\<close> here lives in the copy that the rest of the call decrypts with.  The result is
  that copy and the priv-param of the datagram.
\<close>

definition ParseTrap_session :: "codec \<Rightarrow> SNMP \<Rightarrow> ber list \<Rightarrow> error + SNMP \<times> bytes" where
  "ParseTrap_session cdc w decodedResponse =
     bindE (index decodedResponse 3) (\<lambda>x3.
     bindE (asString x3) (\<lambda>v3HeaderStr.
     bindE (orReturn DecodeErr (DecodeSequence cdc v3HeaderStr)) (\<lambda>v3HeaderDecoded.
     bindE (index v3HeaderDecoded 1) (\<lambda>h1.
     bindE (asString h1) (\<lambda>eid.
     bindE (index v3HeaderDecoded 2) (\<lambda>h2.
     bindE (asInt h2) (\<lambda>boots.
     bindE (index v3HeaderDecoded 3) (\<lambda>h3.
     bindE (asInt h3) (\<lambda>tm.
     bindE (index v3HeaderDecoded 4) (\<lambda>h4.
     bindE (asString h4) (\<lambda>usr.
     bindE (index v3HeaderDecoded 5) (\<lambda>h5.
     bindE (asString h5) (\<lambda>respAuthParam.
     bindE (index v3HeaderDecoded 6) (\<lambda>h6.
     bindE (asString h6) (\<lambda>respPrivParam.
     if length respAuthParam = 0 \<or> length respPrivParam = 0 then Inl NotEncrypted
     else if length (TrapUsers w) = 0 then Inl NoTrapUser
     else
       (case find (\<lambda>v3user. User v3user = usr) (TrapUsers w) of
          None \<Rightarrow> Inl NoMatchingUser
        | Some v3user \<Rightarrow>
           bindE (derive_keys
                   (w\<lparr>engineID := eid, engineBoots := word_of_int boots,
                      engineTime := word_of_int tm, user := usr,
                      authAlg := AuthAlg v3user, privAlg := PrivAlg v3user,
                      authPwd := AuthPwd v3user, privPwd := PrivPwd v3user\<rparr>))
             (\<lambda>w'. Inr (w', respPrivParam))))))))))))))))))"

definition ParseTrap_v3 :: "codec \<Rightarrow> SNMP \<Rightarrow> ber list \<Rightarrow> error + bytes \<times> ber list" where
  "ParseTrap_v3 cdc w decodedResponse =
     bindE (ParseTrap_session cdc w decodedResponse) (\<lambda>(w', respPrivParam).
     bindE (index decodedResponse 4) (\<lambda>x4.
     bindE (asString x4) (\<lambda>encryptedResp.
     bindE (discardErr [] (decrypt w' encryptedResp respPrivParam)) (\<lambda>plainResp.
     bindE (orReturn DecodeErr (DecodeSequence cdc plainResp)) (\<lambda>pduDecoded.
     Inr (user w', pduDecoded))))))"

text \<open>The loop \<open>for i := 1; i < len(varbinds); i++\<close>, over \<open>varbinds[1:]\<close>.\<close>

fun trap_varbinds :: "ber list \<Rightarrow> (Oid \<rightharpoonup> ber) \<Rightarrow> error + (Oid \<rightharpoonup> ber)" where
  "trap_varbinds [] m = Inr m"
| "trap_varbinds (v # vs) m =
     bindE (asSeq v) (\<lambda>s1.
     bindE (index s1 1) (\<lambda>varoid.
     bindE (asSeq v) (\<lambda>s2.
     bindE (index s2 2) (\<lambda>result.
     bindE (asOid varoid) (\<lambda>oid.
     trap_varbinds vs (m(oid \<mapsto> result)))))))"

definition ParseTrap :: "codec \<Rightarrow> SNMP \<Rightarrow> bytes \<Rightarrow> error + Trap" where
  "ParseTrap cdc w response =
     bindE (orReturn DecodeErr (DecodeSequence cdc response)) (\<lambda>decodedResponse.
     bindE (index decodedResponse 1) (\<lambda>d1.
     bindE (asInt d1) (\<lambda>ver.
     let version = (if ver \<le> 1 then ver + 1 else ver) in
     bindE (if version < 3 then
              bindE (index decodedResponse 2) (\<lambda>d2.
              bindE (asString d2) (\<lambda>comm. Inr (comm, [], decodedResponse)))
            else
              bindE (ParseTrap_v3 cdc w decodedResponse) (\<lambda>(usr, pdu). Inr ([], usr, pdu)))
       (\<lambda>(comm, usr, decoded).
     bindE (index decoded 3) (\<lambda>d3.
     bindE (asSeq d3) (\<lambda>respPacket.
     bindE (if version = 1 then
              bindE (index respPacket 1) (\<lambda>r1.
              bindE (index respPacket 2) (\<lambda>r2.
              bindE (index respPacket 6) (\<lambda>r6.
              bindE (asSeq r6) (\<lambda>varbinds.
              Inr ((case r1 of BerOid oid \<Rightarrow> oid | _ \<Rightarrow> []),
                   (case r2 of BerStr s \<Rightarrow> s | _ \<Rightarrow> []), varbinds)))))
            else
              bindE (index respPacket 4) (\<lambda>r4.
              bindE (asSeq r4) (\<lambda>varbinds. Inr ([], [], varbinds))))
       (\<lambda>(oid, addr, varbinds).
     bindE (trap_varbinds (drop 1 varbinds) Map.empty) (\<lambda>vbs.
     Inr \<lparr>trapVersion = version, OID = oid, trapCommunity = comm, Username = usr,
          Address = addr, VarBinds = vbs\<rparr>))))))))"

section \<open>A codec for concrete runs\<close>

text \<open>
  Modelled from the spec: \<open>EncodeSequence\<close> is not in \<open>snmp.go\<close>.  This is the
  encoder of section 4.A for the values \<open>snmp.go\<close> builds: definite lengths, minimal
  two's complement integers, base-128 sub-identifiers with the first two collapsed to
  \<open>40a + b\<close>, and sequences whose first element is their tag.  The general results
  below hold for every codec; this one serves the concrete runs.
\<close>

function be_int :: "int \<Rightarrow> bytes" where
  "be_int n = (if - 128 \<le> n \<and> n < 128 then [of_int n] else be_int (n div 256) @ [of_int n])"
  by pat_completeness auto
termination
  by (relation "measure (\<lambda>n. nat \<bar>n\<bar>)") auto

declare be_int.simps [simp del]

function be_nat :: "nat \<Rightarrow> bytes" where
  "be_nat n = (if n < 256 then [of_nat n] else be_nat (n div 256) @ [of_nat n])"
  by pat_completeness auto
termination
  by (relation "measure (\<lambda>n. n)") auto

declare be_nat.simps [simp del]

definition ber_length :: "nat \<Rightarrow> bytes" where
  "ber_length n = (if n < 128 then [of_nat n] else of_nat (128 + length (be_nat n)) # be_nat n)"

function subid_high :: "nat \<Rightarrow> bytes" where
  "subid_high n =
     (if n < 128 then [of_nat (128 + n)] else subid_high (n div 128) @ [of_nat (128 + n mod 128)])"
  by pat_completeness auto
termination
  by (relation "measure (\<lambda>n. n)") auto

declare subid_high.simps [simp del]

definition subid :: "nat \<Rightarrow> bytes" where
  "subid n = (if n < 128 then [of_nat n] else subid_high (n div 128) @ [of_nat (n mod 128)])"

definition tlv :: "nat \<Rightarrow> bytes \<Rightarrow> bytes" where
  "tlv t body = of_nat t # ber_length (length body) @ body"

fun ber_encode :: "ber \<Rightarrow> string + bytes" and ber_encode_list :: "ber list \<Rightarrow> string + bytes" where
  "ber_encode (BerInt n) = Inr (tlv 0x02 (be_int n))"
| "ber_encode (BerStr s) = Inr (tlv 0x04 s)"
| "ber_encode BerNull = Inr (tlv 0x05 [])"
| "ber_encode (BerOid oid) =
     (case oid of
        a # b # rest \<Rightarrow>
          if a \<le> 2 then Inr (tlv 0x06 (subid (40 * a + b) @ concat (map subid rest)))
          else Inl ''bad oid''
      | _ \<Rightarrow> Inl ''bad oid'')"
| "ber_encode (BerType t) = Inl ''tag marker outside a sequence''"
| "ber_encode (BerSeq []) = Inl ''sequence without a tag''"
| "ber_encode (BerSeq (x # xs)) =
     (case x of
        BerType t \<Rightarrow> (case ber_encode_list xs of Inl e \<Rightarrow> Inl e | Inr body \<Rightarrow> Inr (tlv t body))
      | _ \<Rightarrow> Inl ''sequence without a tag'')"
| "ber_encode_list [] = Inr []"
| "ber_encode_list (x # xs) =
     (case ber_encode x of
        Inl e \<Rightarrow> Inl e
      | Inr b \<Rightarrow> (case ber_encode_list xs of Inl e \<Rightarrow> Inl e | Inr bs \<Rightarrow> Inr (b @ bs)))"

text \<open>
  A decoder for concrete runs answers from a table: the bytes it expects, and the values
  they decode to.
\<close>

definition canned_codec :: "(bytes \<times> ber list) list \<Rightarrow> codec" where
  "canned_codec tbl =
     \<lparr>EncodeSequence = (\<lambda>xs. ber_encode (BerSeq xs)),
      DecodeSequence = (\<lambda>bs. case map_of tbl bs of
                              Some xs \<Rightarrow> Inr xs
                            | None \<Rightarrow> Inl ''unexpected bytes'')\<rparr>"

section \<open>Terms of the specification and sample sessions\<close>

text \<open>
  The specification's DES privacy in its own words: the plaintext zero-padded to a multiple
  of 8, the salt \<open>boots \<parallel> counter\<close> with the counter incremented before use, and CBC
  under the first 8 key bytes with the IV \<open>pre-IV XOR salt\<close>, the pre-IV being key bytes 8..16.
\<close>

definition zero_pad8 :: "bytes \<Rightarrow> bytes" where
  "zero_pad8 m = m @ replicate ((8 - length m mod 8) mod 8) 0"

definition des_privParam :: "SNMP \<Rightarrow> bytes" where
  "des_privParam w = bytes_be32 (engineBoots w) @ bytes_be32 (desIV w + 1)"

definition des_ciphertext :: "SNMP \<Rightarrow> bytes \<Rightarrow> bytes" where
  "des_ciphertext w m =
     cbc_encrypt (des_encrypt_block (take 8 (privKey w)))
       (xor_bytes (take 8 (drop 8 (privKey w))) (des_privParam w))
       (chunks 8 (zero_pad8 m))"

text \<open>A session as \<open>Discover\<close> leaves it, with DES privacy.\<close>

definition des_session :: SNMP where
  "des_session =
     \<lparr>Target = ''192.0.2.1'', Community = [], Version = 3, timeout = 2000 * Millisecond,
      retries = 0, user = ascii ''admin'', authAlg = ''MD5'', authPwd = ascii ''maplesyrup'',
      privAlg = ''DES'', privPwd = ascii ''maplesyrup'',
      engineID = [0x80, 0, 0x1f, 0x88, 0x80, 1, 2, 3, 4],
      authKey = [1, 2, 3, 4, 5, 6, 7, 8, 9, 10, 11, 12, 13, 14, 15, 16],
      privKey = [16, 15, 14, 13, 12, 11, 10, 9, 8, 7, 6, 5, 4, 3, 2, 1],
      engineBoots = 1, engineTime = 100, desIV = 7, aesIV = 7,
      TrapUsers = [\<lparr>User = ascii ''admin'', AuthAlg = ''MD5'', AuthPwd = ascii ''maplesyrup'',
                    PrivAlg = ''DES'', PrivPwd = ascii ''maplesyrup''\<rparr>]\<rparr>"

text \<open>
  The digest the session's algorithm name selects, and HMAC over 64-byte blocks with the
  key zero-padded on the right.
\<close>

definition digest :: "string \<Rightarrow> bytes \<Rightarrow> bytes" where
  "digest alg = (if alg = ''MD5'' then md5 else sha1)"

definition hmac :: "string \<Rightarrow> bytes \<Rightarrow> bytes \<Rightarrow> bytes" where
  "hmac alg key m =
     (let k = key @ replicate (64 - length key) 0
      in digest alg (xor_bytes k (replicate 64 0x5C)
                     @ digest alg (xor_bytes k (replicate 64 0x36) @ m)))"

text \<open>
  A connection on which every call succeeds and every read delivers the same datagram; a
  reply whose security parameters carry a priv-param of four bytes, and a decoder that
  knows this reply (\<open>[0]\<close> stands for the datagram, \<open>[1]\<close> for its security
  parameters).
\<close>

definition reply_conn :: "bytes \<Rightarrow> conn" where
  "reply_conn datagram = (\<lambda>i.
     \<lparr>now_write = 0, SetWriteDeadline = (\<lambda>d. None), Write = (\<lambda>d b. None),
      now_read = 0, SetReadDeadline = (\<lambda>d. None), Read = (\<lambda>d b. Inr datagram)\<rparr>)"

definition short_salt_header :: "ber list" where
  "short_salt_header =
     [BerType Sequence, BerStr [0x80, 0, 0x1f, 0x88, 0x80, 1, 2, 3, 4], BerInt 1, BerInt 100,
      BerStr (ascii ''admin''), BerStr [1, 2, 3, 4, 5, 6, 7, 8, 9, 10, 11, 12],
      BerStr [0, 0, 0, 1]]"

definition short_salt_message :: "ber list" where
  "short_salt_message =
     [BerType Sequence, BerInt 3,
      BerSeq [BerType Sequence, BerInt 1, BerInt 65500, BerStr [3], BerInt 3],
      BerStr [1], BerStr [1, 2, 3, 4, 5, 6, 7, 8]]"

definition short_salt_codec :: codec where
  "short_salt_codec = canned_codec [([0], short_salt_message), ([1], short_salt_header)]"

text \<open>
  Modelled from the spec: the order on OIDs is defined in the package's OID file.  ``Total
  order is lexicographic over unsigned components.''
\<close>

fun oid_less :: "Oid \<Rightarrow> Oid \<Rightarrow> bool" where
  "oid_less [] [] = False"
| "oid_less [] (y # ys) = True"
| "oid_less (x # xs) [] = False"
| "oid_less (x # xs) (y # ys) = (x < y \<or> (x = y \<and> oid_less xs ys))"

text \<open>
  The state of a walk at the start of its round \<open>n\<close>: cursor and accumulator, or
  \<open>None\<close> when the walk has ended before that round.
\<close>

fun walk_state ::
  "(nat \<Rightarrow> Oid \<Rightarrow> error + (Oid \<times> ber) list) \<Rightarrow> Oid \<Rightarrow> nat \<Rightarrow> (Oid \<times> (Oid \<rightharpoonup> ber)) option" where
  "walk_state bulk root 0 = Some (root, Map.empty)"
| "walk_state bulk root (Suc n) =
     (case walk_state bulk root n of
        None \<Rightarrow> None
      | Some (lastOid, result) \<Rightarrow>
          if \<not> Within lastOid root then None
          else
            (case bulk n lastOid of
               Inl err \<Rightarrow> None
             | Inr results \<Rightarrow>
                 (case table_round root result lastOid results of (result', newLastOid) \<Rightarrow>
                    if lastOid = newLastOid then None else Some (newLastOid, result'))))"

text \<open>
  Sample agents for a walk of \<open>ifDescr\<close>: one that answers with nothing, one that
  answers every request with the same row, one whose answer lies outside the table, and
  one whose two rows are visited with the larger OID first.
\<close>

definition ifDescr :: Oid where
  "ifDescr = [1, 3, 6, 1, 2, 1, 2, 2, 1, 2]"

definition two_rows :: "(Oid \<times> ber) list" where
  "two_rows = [(ifDescr @ [2], BerStr (ascii ''eth0'')), (ifDescr @ [1], BerStr (ascii ''lo''))]"

definition empty_agent :: "nat \<Rightarrow> Oid \<Rightarrow> error + (Oid \<times> ber) list" where
  "empty_agent k cursor = Inr []"

definition stuck_agent :: "nat \<Rightarrow> Oid \<Rightarrow> error + (Oid \<times> ber) list" where
  "stuck_agent k cursor = Inr [(ifDescr @ [1], BerStr (ascii ''lo''))]"

definition leaving_agent :: "nat \<Rightarrow> Oid \<Rightarrow> error + (Oid \<times> ber) list" where
  "leaving_agent k cursor = Inr [([1, 3, 6, 1, 2, 1, 3, 1], BerInt 0)]"

definition two_rows_agent :: "nat \<Rightarrow> Oid \<Rightarrow> error + (Oid \<times> ber) list" where
  "two_rows_agent k cursor = Inr two_rows"

text \<open>
  An agent that answers every request with the same two rows; the loop over the map
  visits them in one order in the even rounds and in the other order in the odd rounds.
\<close>

definition alt_agent :: "nat \<Rightarrow> Oid \<Rightarrow> error + (Oid \<times> ber) list" where
  "alt_agent k cursor = Inr (if even k then rev two_rows else two_rows)"

text \<open>
  A complete v3 exchange for \<open>des_session\<close>: the agent answers a request for
  \<open>sysDescr\<close> under its own salt 42 in the same boots epoch; the decoder knows the
  datagram \<open>[0]\<close>, its security parameters \<open>[1]\<close> and the decrypted scoped PDU.
  \<open>after_reply\<close> is the session once the reply's engine parameters are stored.
\<close>

definition sysDescr :: Oid where
  "sysDescr = [1, 3, 6, 1, 2, 1, 1, 1, 0]"

definition agent_session :: SNMP where
  "agent_session = des_session\<lparr>desIV := 41\<rparr>"

definition reply_plain :: bytes where
  "reply_plain = [2, 0, 0, 0, 0, 0, 0, 0]"

definition good_header :: "ber list" where
  "good_header =
     [BerType Sequence, BerStr [0x80, 0, 0x1f, 0x88, 0x80, 1, 2, 3, 4], BerInt 1, BerInt 101,
      BerStr (ascii ''admin''), BerStr [1, 2, 3, 4, 5, 6, 7, 8, 9, 10, 11, 12],
      BerStr (des_privParam agent_session)]"

definition good_message :: "ber list" where
  "good_message =
     [BerType Sequence, BerInt 3,
      BerSeq [BerType Sequence, BerInt 1, BerInt 65500, BerStr [3], BerInt 3],
      BerStr [1], BerStr (des_ciphertext agent_session reply_plain)]"

definition good_pdu :: "ber list" where
  "good_pdu =
     [BerType Sequence, BerStr [0x80, 0, 0x1f, 0x88, 0x80, 1, 2, 3, 4], BerStr [],
      BerSeq [BerType 0xA2, BerInt 2, BerInt 0, BerInt 0,
        BerSeq [BerType Sequence,
          BerSeq [BerType Sequence, BerOid sysDescr, BerStr (ascii ''router'')]]]]"

definition good_codec :: codec where
  "good_codec =
     canned_codec [([0], good_message), ([1], good_header), (reply_plain, good_pdu)]"

definition after_reply :: SNMP where
  "after_reply =
     des_session\<lparr>engineID := [0x80, 0, 0x1f, 0x88, 0x80, 1, 2, 3, 4], engineBoots := 1,
                  engineTime := 101\<rparr>"


definition slow_conn :: "bytes \<Rightarrow> conn" where
  "slow_conn datagram = (\<lambda>i.
     \<lparr>now_write = 0, SetWriteDeadline = (\<lambda>d. None), Write = (\<lambda>d b. None),
      now_read = 0, SetReadDeadline = (\<lambda>d. None),
      Read = (\<lambda>d b. if 1000 * Millisecond \<le> d then Inr datagram else Inl ''i/o timeout'')\<rparr>)"

definition v2_session :: SNMP where
  "v2_session =
     \<lparr>Target = ''192.0.2.1'', Community = ascii ''public'', Version = 1,
      timeout = 2000 * Millisecond, retries = 0, user = [], authAlg = [], authPwd = [],
      privAlg = [], privPwd = [], engineID = [], authKey = [], privKey = [], engineBoots = 0,
      engineTime = 0, desIV = 0, aesIV = 0, TrapUsers = []\<rparr>"

definition fresh_v3_session :: SNMP where
  "fresh_v3_session =
     \<lparr>Target = ''192.0.2.1'', Community = [], Version = 3, timeout = 2000 * Millisecond,
      retries = 0, user = ascii ''admin'', authAlg = ''MD5'', authPwd = ascii ''maplesyrup'',
      privAlg = ''AES'', privPwd = ascii ''maplesyrup'', engineID = [], authKey = [],
      privKey = [], engineBoots = 0, engineTime = 0, desIV = 0, aesIV = 0, TrapUsers = []\<rparr>"

section \<open>Basic facts\<close>

subsection \<open>Results\<close>

lemma bindE_Inr [simp]: "bindE (Inr x) f = f x"
  by (simp add: bindE_def)

lemma bindE_Inl [simp]: "bindE (Inl e) f = Inl e"
  by (simp add: bindE_def)

lemma bindE_eq_Inr: "bindE m f = Inr y \<longleftrightarrow> (\<exists>x. m = Inr x \<and> f x = Inr y)"
  by (cases m) simp_all

lemma bindE_eq_Inl: "bindE m f = Inl e \<longleftrightarrow> m = Inl e \<or> (\<exists>x. m = Inr x \<and> f x = Inl e)"
  by (cases m) simp_all

lemma discardErr_Inr [simp]: "discardErr d (Inr x) = Inr x"
  by (simp add: discardErr_def)

lemma substr_ok: "lo \<le> hi \<Longrightarrow> hi \<le> length s \<Longrightarrow> substr s lo hi = Inr (take (hi - lo) (drop lo s))"
  by (simp add: substr_def)

subsection \<open>Chunks\<close>

lemma chunks_Nil [simp]: "chunks n [] = []"
  by (simp add: chunks.simps)

lemma chunks_block: "0 < n \<Longrightarrow> length a = n \<Longrightarrow> chunks n (a @ b) = a # chunks n b"
  by (subst chunks.simps) auto

lemma concat_chunks: "0 < n \<Longrightarrow> concat (chunks n xs) = xs"
proof (induction n xs rule: chunks.induct)
  case (1 n xs)
  show ?case
  proof (cases "xs = []")
    case True
    then show ?thesis by simp
  next
    case False
    with 1 have "concat (chunks n (drop n xs)) = drop n xs" by simp
    with False 1(2) show ?thesis by (subst chunks.simps) simp
  qed
qed

lemma chunks_concat:
  "0 < n \<Longrightarrow> \<forall>x \<in> set xss. length x = n \<Longrightarrow> chunks n (concat xss) = xss"
  by (induction xss) (simp_all add: chunks_block)

lemma chunks_full:
  "0 < n \<Longrightarrow> n dvd length xs \<Longrightarrow> c \<in> set (chunks n xs) \<Longrightarrow> length c = n"
proof (induction n xs rule: chunks.induct)
  case (1 n xs)
  show ?case
  proof (cases "xs = []")
    case True
    with 1(4) show ?thesis by simp
  next
    case False
    from False have "0 < length xs" by simp
    with 1(3) have len: "n \<le> length xs" by (rule dvd_imp_le)
    have dv: "n dvd length (drop n xs)" using 1(3) by (simp add: dvd_diff_nat)
    from 1(4) False 1(2) have "c = take n xs \<or> c \<in> set (chunks n (drop n xs))"
      by (subst (asm) chunks.simps) auto
    then show ?thesis using 1(1)[OF _ 1(2) dv] False 1(2) len by auto
  qed
qed

subsection \<open>Bits and bytes\<close>

lemma byte_of_bits_of_byte [simp]: "byte_of_bits (bits_of_byte b) = b"
  by (simp add: byte_of_bits_def bits_of_byte_def horner_sum_bit_eq_take_bit take_bit_word_eq_self del: upt.simps)

lemma length_bits_of_byte [simp]: "length (bits_of_byte b) = 8"
  by (simp add: bits_of_byte_def)

lemma bits_of_byte_of_bits: "length bs = 8 \<Longrightarrow> bits_of_byte (byte_of_bits bs) = bs"
  by (rule nth_equalityI)
     (auto simp: bits_of_byte_def byte_of_bits_def rev_nth bit_horner_sum_bit_word_iff simp del: upt.simps)

lemma bytes_of_bits_of_bytes [simp]: "bytes_of_bits (bits_of_bytes bs) = bs"
  by (simp add: bytes_of_bits_def bits_of_bytes_def chunks_concat map_idI)

lemma bits_of_bytes_of_bits: "8 dvd length bs \<Longrightarrow> bits_of_bytes (bytes_of_bits bs) = bs"
proof -
  assume d: "8 dvd length bs"
  have "map (bits_of_byte \<circ> byte_of_bits) (chunks 8 bs) = map id (chunks 8 bs)"
    by (rule map_cong) (auto simp: bits_of_byte_of_bits chunks_full[OF _ d])
  then show ?thesis
    by (simp add: bytes_of_bits_def bits_of_bytes_def concat_chunks)
qed

lemma length_bytes_of_bits: "length bs = 8 * n \<Longrightarrow> length (bytes_of_bits bs) = n"
proof (induction n arbitrary: bs)
  case 0
  then show ?case by (simp add: bytes_of_bits_def)
next
  case (Suc n)
  then have "bs = take 8 bs @ drop 8 bs" "length (take 8 bs) = 8" "length (drop 8 bs) = 8 * n"
    by auto
  then have "chunks 8 bs = take 8 bs # chunks 8 (drop 8 bs)"
    by (metis chunks_block zero_less_numeral)
  with Suc.IH[of "drop 8 bs"] \<open>length (drop 8 bs) = 8 * n\<close> show ?case
    by (simp add: bytes_of_bits_def)
qed

subsection \<open>DES: decryption inverts encryption\<close>

lemma length_permute [simp]: "length (permute tbl xs) = length tbl"
  by (simp add: permute_def)

lemma length_des_tables [simp]:
  "length des_IP = 64" "length des_FP = 64" "length des_P = 32"
  by (simp_all add: des_IP_def des_FP_def des_P_def)

lemma length_xor_bits [simp]: "length (xor_bits xs ys) = min (length xs) (length ys)"
  by (simp add: xor_bits_def)

lemma xor_bits_cancel: "length l \<le> length x \<Longrightarrow> xor_bits (xor_bits l x) x = l"
  by (rule nth_equalityI) (auto simp: xor_bits_def)

lemma length_des_f [simp]: "length (des_f r k) = 32"
  by (simp add: des_f_def Let_def)

lemma feistel_snoc: "feistel (ks @ [k]) lr = feistel [k] (feistel ks lr)"
  by (induction ks lr rule: feistel.induct) simp_all

lemma feistel_inverse:
  "length l = 32 \<Longrightarrow> length r = 32 \<Longrightarrow>
   feistel (rev ks) (case feistel ks (l, r) of (l', r') \<Rightarrow> (r', l')) = (r, l)"
proof (induction ks arbitrary: l r)
  case Nil
  then show ?case by simp
next
  case (Cons k ks)
  have "feistel (rev ks) (case feistel ks (r, xor_bits l (des_f r k)) of (l', r') \<Rightarrow> (r', l'))
        = (xor_bits l (des_f r k), r)"
    using Cons.prems by (intro Cons.IH) simp_all
  then show ?case
    using Cons.prems by (simp add: feistel_snoc xor_bits_cancel)
qed

lemma des_IP_FP_tables:
  "map (\<lambda>i. des_FP ! (des_IP ! i - 1) - 1) [0..<64] = [0..<64]"
  "map (\<lambda>i. des_IP ! (des_FP ! i - 1) - 1) [0..<64] = [0..<64]"
  by code_simp+

lemma des_IP_range: "list_all (\<lambda>i. 0 < i \<and> i \<le> 64) des_IP" "list_all (\<lambda>i. 0 < i \<and> i \<le> 64) des_FP"
  by code_simp+

lemma permute_FP_IP: "length y = 64 \<Longrightarrow> permute des_FP (permute des_IP y) = y"
proof (rule nth_equalityI)
  show "length y = 64 \<Longrightarrow> length (permute des_FP (permute des_IP y)) = length y"
    by simp
next
  fix i
  assume len: "length y = 64" and "i < length (permute des_FP (permute des_IP y))"
  then have i: "i < 64" by simp
  have lf: "length des_FP = 64" and li: "length des_IP = 64" by simp_all
  from des_IP_range(2) i lf have r: "0 < des_FP ! i" "des_FP ! i \<le> 64"
    by (auto simp: list_all_length)
  have "map (\<lambda>i. des_IP ! (des_FP ! i - 1) - 1) [0..<64] ! i = [0..<64] ! i"
    by (simp only: des_IP_FP_tables)
  with i have e: "des_IP ! (des_FP ! i - 1) - 1 = i" by (simp del: upt.simps)
  show "permute des_FP (permute des_IP y) ! i = y ! i"
    using i r e lf li by (simp add: permute_def)
qed

lemma permute_IP_FP: "length y = 64 \<Longrightarrow> permute des_IP (permute des_FP y) = y"
proof (rule nth_equalityI)
  show "length y = 64 \<Longrightarrow> length (permute des_IP (permute des_FP y)) = length y"
    by simp
next
  fix i
  assume len: "length y = 64" and "i < length (permute des_IP (permute des_FP y))"
  then have i: "i < 64" by simp
  have lf: "length des_FP = 64" and li: "length des_IP = 64" by simp_all
  from des_IP_range(1) i li have r: "0 < des_IP ! i" "des_IP ! i \<le> 64"
    by (auto simp: list_all_length)
  have "map (\<lambda>i. des_FP ! (des_IP ! i - 1) - 1) [0..<64] ! i = [0..<64] ! i"
    by (simp only: des_IP_FP_tables)
  with i have e: "des_FP ! (des_IP ! i - 1) - 1 = i" by (simp del: upt.simps)
  show "permute des_IP (permute des_FP y) ! i = y ! i"
    using i r e lf li by (simp add: permute_def)
qed

lemma feistel_lengths:
  "length l = 32 \<Longrightarrow> length r = 32 \<Longrightarrow> feistel ks (l, r) = (l', r') \<Longrightarrow>
   length l' = 32 \<and> length r' = 32"
proof (induction ks arbitrary: l r)
  case Nil
  then show ?case by simp
next
  case (Cons k ks)
  from Cons.prems(3) have "feistel ks (r, xor_bits l (des_f r k)) = (l', r')" by simp
  then show ?case using Cons.prems(1,2) by (intro Cons.IH[of r "xor_bits l (des_f r k)"]) simp_all
qed

lemma length_bits_of_bytes [simp]: "length (bits_of_bytes bs) = 8 * length bs"
  by (induction bs) (simp_all add: bits_of_bytes_def)

lemma length_des_crypt [simp]: "length (des_crypt ks blk) = 8"
  by (auto simp: des_crypt_def Let_def split: prod.splits
        intro!: length_bytes_of_bits[where n = 8])

lemma des_crypt_inverse:
  assumes "length blk = 8"
  shows "des_crypt (rev ks) (des_crypt ks blk) = blk"
proof -
  define x where "x = permute des_IP (bits_of_bytes blk)"
  have lx: "length x = 64" by (simp add: x_def)
  obtain l' r' where f: "feistel ks (take 32 x, drop 32 x) = (l', r')"
    by (cases "feistel ks (take 32 x, drop 32 x)")
  from feistel_lengths[OF _ _ f] lx have l: "length l' = 32" "length r' = 32" by simp_all
  have enc: "des_crypt ks blk = bytes_of_bits (permute des_FP (r' @ l'))"
    using f by (simp add: des_crypt_def x_def Let_def)
  have "feistel (rev ks) (case feistel ks (take 32 x, drop 32 x) of (a, b) \<Rightarrow> (b, a))
        = (drop 32 x, take 32 x)"
    using lx by (intro feistel_inverse) simp_all
  then have dec: "feistel (rev ks) (r', l') = (drop 32 x, take 32 x)"
    using f by simp
  have "bits_of_bytes (bytes_of_bits (permute des_FP (r' @ l'))) = permute des_FP (r' @ l')"
    by (rule bits_of_bytes_of_bits) simp
  moreover have "permute des_IP (permute des_FP (r' @ l')) = r' @ l'"
    using l by (intro permute_IP_FP) simp
  ultimately have "des_crypt (rev ks) (bytes_of_bits (permute des_FP (r' @ l')))
      = bytes_of_bits (permute des_FP (take 32 x @ drop 32 x))"
    using l dec by (simp add: des_crypt_def Let_def)
  then have "des_crypt (rev ks) (des_crypt ks blk)
      = bytes_of_bits (permute des_FP (take 32 x @ drop 32 x))"
    by (simp only: enc)
  also have "\<dots> = bytes_of_bits (bits_of_bytes blk)"
    using assms by (simp add: x_def permute_FP_IP)
  finally show ?thesis by simp
qed

lemma des_decrypt_encrypt_block:
  "length blk = 8 \<Longrightarrow> des_decrypt_block key (des_encrypt_block key blk) = blk"
  by (simp add: des_decrypt_block_def des_encrypt_block_def des_crypt_inverse)

lemma length_des_encrypt_block [simp]: "length (des_encrypt_block key blk) = 8"
  by (simp add: des_encrypt_block_def)

subsection \<open>CBC\<close>

lemma length_xor_bytes [simp]: "length (xor_bytes xs ys) = min (length xs) (length ys)"
  by (simp add: xor_bytes_def)

lemma xor_bytes_cancel: "length p \<le> length iv \<Longrightarrow> xor_bytes (xor_bytes p iv) iv = p"
  by (rule nth_equalityI) (auto simp: xor_bytes_def bit_eq_iff bit_simps)

lemma length_cbc_encrypt:
  "\<forall>b. length (E b) = n \<Longrightarrow> length (cbc_encrypt E iv ps) = n * length ps"
  by (induction ps arbitrary: iv) (simp_all add: Let_def)

lemma cbc_roundtrip:
  assumes E: "\<And>b. length (E b) = 8" and D: "\<And>b. length b = 8 \<Longrightarrow> D (E b) = b"
  shows "length iv = 8 \<Longrightarrow> \<forall>p \<in> set ps. length p = 8 \<Longrightarrow>
         cbc_decrypt D iv (chunks 8 (cbc_encrypt E iv ps)) = concat ps"
proof (induction ps arbitrary: iv)
  case Nil
  then show ?case by simp
next
  case (Cons p ps)
  let ?c = "E (xor_bytes p iv)"
  have c: "length ?c = 8" by (rule E)
  have "chunks 8 (?c @ cbc_encrypt E ?c ps) = ?c # chunks 8 (cbc_encrypt E ?c ps)"
    using c by (simp add: chunks_block)
  moreover have "D ?c = xor_bytes p iv" using Cons.prems by (intro D) simp
  moreover have "cbc_decrypt D ?c (chunks 8 (cbc_encrypt E ?c ps)) = concat ps"
    using Cons.prems c by (intro Cons.IH) simp_all
  ultimately show ?case using Cons.prems by (simp add: Let_def xor_bytes_cancel)
qed

lemma length_bytes_be32 [simp]: "length (bytes_be32 x) = 4"
  by (simp add: bytes_be32_def)

lemma length_bytes_be64 [simp]: "length (bytes_be64 x) = 8"
  by (simp add: bytes_be64_def)

lemma strXor_same_length:
  "length s1 = length s2 \<Longrightarrow> strXor s1 s2 = Inr (xor_bytes s1 s2)"
  by (auto simp: strXor_def xor_bytes_def intro!: nth_equalityI)

lemma strXor_panics:
  "length s1 \<noteq> length s2 \<Longrightarrow>
   strXor s1 s2 = Inl (Panic ''strXor called with two strings of different length'')"
  by (simp add: strXor_def)

lemma length_zero_pad8: "8 dvd length (zero_pad8 m)"
proof -
  define q r where "q = length m div 8" and "r = length m mod 8"
  have r: "r < 8" and n: "length m = 8 * q + r" by (simp_all add: q_def r_def)
  have "length (zero_pad8 m) = length m + (8 - r) mod 8"
    by (simp add: zero_pad8_def r_def)
  also have "\<dots> = (if r = 0 then 8 * q else 8 * (q + 1))"
    using r n by auto
  finally show ?thesis by simp
qed

lemma zero_pad8_eq:
  "(if length m mod 8 \<noteq> 0 then m @ replicate (8 - length m mod 8) 0 else m) = zero_pad8 m"
  by (simp add: zero_pad8_def)

lemma encryptDESCBC_ok:
  "length key = 8 \<Longrightarrow> length iv = 8 \<Longrightarrow> 8 dvd length src \<Longrightarrow>
   encryptDESCBC (replicate (length src) 0) src key iv
     = Inr (cbc_encrypt (des_encrypt_block key) iv (chunks 8 src))"
  by (simp add: encryptDESCBC_def)

lemma decryptDESCBC_ok:
  "length key = 8 \<Longrightarrow> length iv = 8 \<Longrightarrow> 8 dvd length src \<Longrightarrow>
   decryptDESCBC (replicate (length src) 0) src key iv
     = Inr (cbc_decrypt (des_decrypt_block key) iv (chunks 8 src))"
  by (simp add: decryptDESCBC_def)

lemma length_chunks: "0 < n \<Longrightarrow> n dvd length xs \<Longrightarrow> n * length (chunks n xs) = length xs"
proof -
  assume n: "0 < n" and d: "n dvd length xs"
  have "length (concat (chunks n xs)) = sum_list (map length (chunks n xs))"
    by (simp add: length_concat)
  also have "map length (chunks n xs) = map (\<lambda>_. n) (chunks n xs)"
    by (rule map_cong) (auto simp: chunks_full[OF n d])
  finally show ?thesis using n by (simp add: concat_chunks sum_list_triv)
qed

lemma des_cbc_roundtrip:
  assumes "length key = 8" "length iv = 8" "8 dvd length src"
  shows "cbc_decrypt (des_decrypt_block key) iv
           (chunks 8 (cbc_encrypt (des_encrypt_block key) iv (chunks 8 src))) = src"
proof -
  have "cbc_decrypt (des_decrypt_block key) iv
           (chunks 8 (cbc_encrypt (des_encrypt_block key) iv (chunks 8 src)))
        = concat (chunks 8 src)"
    using assms
    by (intro cbc_roundtrip) (auto simp: des_decrypt_encrypt_block chunks_full)
  then show ?thesis by (simp add: concat_chunks)
qed

lemma length_des_cbc:
  "8 dvd length src \<Longrightarrow>
   length (cbc_encrypt (des_encrypt_block key) iv (chunks 8 src)) = length src"
  using length_cbc_encrypt[of "des_encrypt_block key" 8 iv "chunks 8 src"]
  by (simp add: length_chunks)

subsection \<open>DES privacy round trip\<close>

lemma des_encrypt_decrypt_ok:
  assumes des: "privAlg w \<noteq> SnmpAES" and key: "length (privKey w) = 16"
  shows "encrypt w m = Inr (des_ciphertext w m, des_privParam w)
         \<and> 8 dvd length (zero_pad8 m)
         \<and> length (des_ciphertext w m) = length (zero_pad8 m)
         \<and> decrypt w (des_ciphertext w m) (des_privParam w) = Inr (zero_pad8 m)"
proof -
  let ?pp = "des_privParam w" and ?c = "des_ciphertext w m"
  let ?iv = "xor_bytes (take 8 (drop 8 (privKey w))) ?pp"
  have pp: "length ?pp = 8" by (simp add: des_privParam_def)
  have k8: "substr (privKey w) 0 8 = Inr (take 8 (privKey w))"
    and p8: "substr (privKey w) 8 16 = Inr (take 8 (drop 8 (privKey w)))"
    using key by (simp_all add: substr_def)
  have x: "strXor (take 8 (drop 8 (privKey w))) ?pp = Inr ?iv"
    using key pp by (simp add: strXor_same_length)
  have liv: "length ?iv = 8" using key pp by simp
  have lk: "length (take 8 (privKey w)) = 8" using key by simp
  note d8 = length_zero_pad8[of m]
  have "encrypt w m =
          bindE (substr (privKey w) 0 8) (\<lambda>desKey.
          bindE (substr (privKey w) 8 16) (\<lambda>preIV.
          bindE (strXor preIV ?pp) (\<lambda>iv.
          bindE (discardErr (replicate (length (zero_pad8 m)) 0)
                  (encryptDESCBC (replicate (length (zero_pad8 m)) 0) (zero_pad8 m) desKey iv))
            (\<lambda>encrypted. Inr (encrypted, ?pp)))))"
    unfolding encrypt_def Let_def zero_pad8_eq des_privParam_def[symmetric] using des by simp
  then have enc: "encrypt w m = Inr (?c, ?pp)"
    by (simp add: k8 p8 x encryptDESCBC_ok[OF lk liv d8] des_ciphertext_def)
  have lc: "length ?c = length (zero_pad8 m)"
    by (simp add: des_ciphertext_def length_des_cbc[OF d8])
  then have dc: "8 dvd length ?c" using d8 by simp
  have "decrypt w ?c ?pp = Inr (zero_pad8 m)"
    using des x dc
    by (simp add: decrypt_def Let_def k8 p8 decryptDESCBC_ok[OF lk liv dc])
       (simp add: des_ciphertext_def des_cbc_roundtrip[OF lk liv d8])
  with enc d8 lc show ?thesis by simp
qed

text \<open>
  Claim C5.  With DES privacy and a 16-byte \<open>privKey\<close> (key: its first 8 bytes, pre-IV:
  bytes 8..16, IV: pre-IV XOR priv-param), \<open>encrypt\<close> zero-pads the plaintext to a
  multiple of 8, the ciphertext is as long as the padded plaintext, and \<open>decrypt\<close> of
  that ciphertext under the same session and the priv-param \<open>encrypt\<close> returned gives
  the plaintext followed by its zero padding.
\<close>

theorem des_encrypt_then_decrypt:
  assumes "privAlg w \<noteq> SnmpAES" and "length (privKey w) = 16"
  shows "encrypt w m = Inr (des_ciphertext w m, des_privParam w)
         \<and> 8 dvd length (zero_pad8 m)
         \<and> length (des_ciphertext w m) = length (zero_pad8 m)
         \<and> decrypt w (des_ciphertext w m) (des_privParam w) = Inr (zero_pad8 m)"
  using assms by (rule des_encrypt_decrypt_ok)

theorem des_encrypt_then_decrypt_witness:
  "encrypt des_session [1, 2, 3, 4, 5]
     = Inr (des_ciphertext des_session [1, 2, 3, 4, 5], [0, 0, 0, 1, 0, 0, 0, 8])
   \<and> length (des_ciphertext des_session [1, 2, 3, 4, 5]) = 8
   \<and> decrypt des_session (des_ciphertext des_session [1, 2, 3, 4, 5]) [0, 0, 0, 1, 0, 0, 0, 8]
     = Inr [1, 2, 3, 4, 5, 0, 0, 0]"
proof -
  have h1: "privAlg des_session \<noteq> SnmpAES" and h2: "length (privKey des_session) = 16"
    by (simp_all add: des_session_def SnmpAES_def)
  have pp: "des_privParam des_session = [0, 0, 0, 1, 0, 0, 0, 8]"
    by (simp add: des_privParam_def des_session_def bytes_be32_def)
  have pad: "zero_pad8 [1, 2, 3, 4, 5] = [1, 2, 3, 4, 5, 0, 0, 0]"
    by code_simp
  show ?thesis
    using des_encrypt_then_decrypt[OF h1 h2, of "[1, 2, 3, 4, 5]"] by (simp add: pp pad)
qed

subsection \<open>Small steps\<close>

lemma orPanic_simps [simp]: "orPanic (Inr x) = Inr x" "orPanic (Inl m) = Inl (Panic m)"
  by (simp_all add: orPanic_def)

lemma orReturn_simps [simp]: "orReturn mk (Inr x) = Inr x" "orReturn mk (Inl m) = Inl (mk m)"
  by (simp_all add: orReturn_def)

lemma discardErr_simps [simp]:
  "discardErr d (Inl (Panic m)) = Inl (Panic m)"
  "discardErr d (Inl (KeySizeError n)) = Inr d"
  by (simp_all add: discardErr_def)

lemma as_simps [simp]:
  "asString (BerStr s) = Inr s" "asInt (BerInt n) = Inr n" "asSeq (BerSeq xs) = Inr xs"
  "asOid (BerOid oid) = Inr oid"
  by (simp_all add: asString_def asInt_def asSeq_def asOid_def)

lemma index_in_range: "i < length xs \<Longrightarrow> index xs i = Inr (xs ! i)"
  by (simp add: index_def)

lemma Repeat_nonneg: "0 \<le> n \<Longrightarrow> Repeat s n = Inr (concat (replicate (nat n) s))"
  by (simp add: Repeat_def)

subsection \<open>Digest lengths and key derivation\<close>

lemma length_bytes_le32 [simp]: "length (bytes_le32 x) = 4"
  by (simp add: bytes_le32_def)

lemma length_md5 [simp]: "length (md5 m) = 16"
  by (simp add: md5_def split: prod.splits)

lemma length_sha1 [simp]: "length (sha1 m) = 20"
  by (simp add: sha1_def split: prod.splits)

lemma length_Sum_New:
  "length (Sum (WriteString (if alg = ''MD5'' then md5_New else sha1_New) s)) =
     (if alg = ''MD5'' then 16 else 20)"
  by (simp add: Sum_def WriteString_def md5_New_def sha1_New_def)

lemma length_digest: "length (digest alg m) = (if alg = ''MD5'' then 16 else 20)"
  by (simp add: digest_def)

lemma write_repeat_buffer:
  "write_repeat n h p = (fst h, snd h @ concat (replicate n p))"
  by (induction n arbitrary: h) (simp_all add: WriteString_def)

lemma passwordToKey_nonempty:
  assumes "password \<noteq> []"
  shows "passwordToKey password engID hashAlg =
           Inr (digest hashAlg
                  (digest hashAlg
                     (concat (replicate (1048576 div length password) password)
                      @ take (1048576 mod length password) password)
                   @ engID
                   @ digest hashAlg
                       (concat (replicate (1048576 div length password) password)
                        @ take (1048576 mod length password) password)))"
  using assms
  by (simp add: passwordToKey_def Let_def write_repeat_buffer WriteString_def Sum_def Reset_def
      md5_New_def sha1_New_def digest_def del: replicate.simps)

lemma passwordToKey_empty: "passwordToKey [] engID hashAlg = Inl (Panic ''integer divide by zero'')"
  by (simp add: passwordToKey_def)

lemma passwordToKey_length:
  "passwordToKey password engID hashAlg = Inr k \<Longrightarrow> length k = (if hashAlg = ''MD5'' then 16 else 20)"
  by (cases "password = []") (auto simp: passwordToKey_empty passwordToKey_nonempty length_digest)

lemma derive_keys_Inr:
  assumes "derive_keys w = Inr w'"
  shows "\<exists>Kul ak. passwordToKey (privPwd w) (engineID w) (authAlg w) = Inr Kul
           \<and> passwordToKey (authPwd w) (engineID w) (authAlg w) = Inr ak
           \<and> w' = w\<lparr>authKey := ak, privKey := take 16 Kul\<rparr>
           \<and> length (take 16 Kul) = 16"
proof -
  from assms obtain ak Kul pk16 where
    ak: "passwordToKey (authPwd w) (engineID w) (authAlg w) = Inr ak" and
    pk: "passwordToKey (privPwd w) (engineID w) (authAlg w) = Inr Kul" and
    s: "substr Kul 0 16 = Inr pk16" and w': "w' = w\<lparr>authKey := ak, privKey := pk16\<rparr>"
    by (auto simp: derive_keys_def bindE_eq_Inr)
  from passwordToKey_length[OF pk] have "16 \<le> length Kul" by (simp split: if_splits)
  with s w' ak pk show ?thesis by (auto simp: substr_def)
qed

lemma derive_keys_nonempty:
  assumes "authPwd w \<noteq> []" "privPwd w \<noteq> []"
  shows "\<exists>w'. derive_keys w = Inr w'"
proof -
  from assms obtain ak pk where
    ak: "passwordToKey (authPwd w) (engineID w) (authAlg w) = Inr ak" and
    pk: "passwordToKey (privPwd w) (engineID w) (authAlg w) = Inr pk"
    by (auto simp: passwordToKey_nonempty)
  from passwordToKey_length[OF pk] have "16 \<le> length pk" by (simp split: if_splits)
  then show ?thesis by (simp add: derive_keys_def ak pk substr_def)
qed

subsection \<open>A priv-param of the wrong length\<close>

lemma decrypt_des_strXor_panic:
  assumes "privAlg w \<noteq> SnmpAES" "16 \<le> length (privKey w)" "length privParam \<noteq> 8"
  shows "decrypt w payload privParam =
           Inl (Panic ''strXor called with two strings of different length'')"
proof -
  have "substr (privKey w) 0 8 = Inr (take 8 (privKey w))"
    and "substr (privKey w) 8 16 = Inr (take 8 (drop 8 (privKey w)))"
    using assms(2) by (simp_all add: substr_def)
  moreover have "strXor (take 8 (drop 8 (privKey w))) privParam =
      Inl (Panic ''strXor called with two strings of different length'')"
    using assms(2,3) by (intro strXor_panics) auto
  ultimately show ?thesis using assms(1) by (simp add: decrypt_def)
qed

lemma doGetV3_pdu_strXor_panic:
  assumes "privAlg w \<noteq> SnmpAES" "16 \<le> length (privKey w)"
    and "ap \<noteq> []" "pp \<noteq> []" "length pp \<noteq> 8"
  shows "doGetV3_pdu cdc w [t0, ver, gh, BerStr hs, BerStr ct]
           [t1, BerStr eid, BerInt boots, BerInt tm, usr, BerStr ap, BerStr pp] =
         Inl (Panic ''strXor called with two strings of different length'')"
  using assms(3,4)
  by (simp add: doGetV3_pdu_def index_def decrypt_des_strXor_panic[OF assms(1,2,5)])

lemma doGetV3_response_strXor_panic:
  assumes "privAlg w \<noteq> SnmpAES" "16 \<le> length (privKey w)"
    and "DecodeSequence cdc response = Inr [t0, ver, gh, BerStr hs, BerStr ct]"
    and "DecodeSequence cdc hs =
           Inr [t1, BerStr eid, BerInt boots, BerInt tm, usr, BerStr ap, BerStr pp]"
    and "ap \<noteq> []" "pp \<noteq> []" "length pp \<noteq> 8"
  shows "fst (doGetV3_response cdc w response) =
         Inl (Panic ''strXor called with two strings of different length'')"
  using assms(1,2)
  by (simp add: doGetV3_response_def assms(3,4) index_def Let_def
      doGetV3_pdu_strXor_panic[OF _ _ assms(5,6,7)])

lemma ParseTrap_strXor_panic:
  assumes "DecodeSequence cdc response = Inr [t0, BerInt ver, gh, BerStr hs, BerStr ct]"
    and "3 \<le> ver"
    and "DecodeSequence cdc hs =
           Inr [t1, BerStr eid, BerInt boots, BerInt tm, BerStr usr, BerStr ap, BerStr pp]"
    and "ap \<noteq> []" "pp \<noteq> []" "length pp \<noteq> 8"
    and "find (\<lambda>v3user. User v3user = usr) (TrapUsers w) = Some u"
    and "PrivAlg u \<noteq> SnmpAES" "AuthPwd u \<noteq> []" "PrivPwd u \<noteq> []"
  shows "ParseTrap cdc w response =
         Inl (Panic ''strXor called with two strings of different length'')"
proof -
  let ?w1 = "w\<lparr>engineID := eid, engineBoots := word_of_int boots,
                engineTime := word_of_int tm, user := usr,
                authAlg := AuthAlg u, privAlg := PrivAlg u,
                authPwd := AuthPwd u, privPwd := PrivPwd u\<rparr>"
  from assms(9,10) obtain w' where d: "derive_keys ?w1 = Inr w'"
    using derive_keys_nonempty[of ?w1] by auto
  from derive_keys_Inr[OF d] have w': "privAlg w' = PrivAlg u" "length (privKey w') = 16"
    by auto
  from assms(7) have users: "TrapUsers w \<noteq> []" by auto
  have sess: "ParseTrap_session cdc w [t0, BerInt ver, gh, BerStr hs, BerStr ct] = Inr (w', pp)"
    using assms(4,5) users by (simp add: ParseTrap_session_def index_def assms(3,7) d)
  have "decrypt w' ct pp = Inl (Panic ''strXor called with two strings of different length'')"
    using w' assms(8,6) by (intro decrypt_des_strXor_panic) simp_all
  then have "ParseTrap_v3 cdc w [t0, BerInt ver, gh, BerStr hs, BerStr ct] =
               Inl (Panic ''strXor called with two strings of different length'')"
    by (simp add: ParseTrap_v3_def sess index_def)
  then show ?thesis using assms(2) by (simp add: ParseTrap_def assms(1) index_def Let_def)
qed

lemma concat_replicate_single: "concat (replicate n [x]) = replicate n x"
  by (induction n) simp_all

lemma auth_hmac:
  assumes "length (authKey w) \<le> 64"
  shows "auth w m = Inr (take 12 (hmac (authAlg w) (authKey w) m))"
proof -
  let ?k = "authKey w @ replicate (64 - length (authKey w)) 0"
  have pad: "Repeat [0] (64 - int (length (authKey w))) = Inr (replicate (64 - length (authKey w)) 0)"
    using assms by (simp add: Repeat_def concat_replicate_single nat_diff_distrib')
  have rep: "Repeat [0x36] 64 = Inr (replicate 64 0x36)" "Repeat [0x5C] 64 = Inr (replicate 64 0x5C)"
    by (simp_all add: Repeat_def concat_replicate_single)
  have lk: "length ?k = 64" using assms by simp
  have x: "strXor ?k (replicate 64 0x36) = Inr (xor_bytes ?k (replicate 64 0x36))"
    "strXor ?k (replicate 64 0x5C) = Inr (xor_bytes ?k (replicate 64 0x5C))"
    using lk by (simp_all add: strXor_same_length)
  have "12 \<le> length (digest (authAlg w) z)" for z by (simp add: length_digest)
  then show ?thesis
    by (simp add: auth_def Let_def pad rep x hmac_def substr_def Sum_def WriteString_def
        Reset_def md5_New_def sha1_New_def digest_def)
qed

lemma poll_reply_conn: "poll (reply_conn d) pkt n 0 tmo = Inr (take n d)"
  by (simp add: poll_def reply_conn_def wrap_int64_def)

lemma doGetV3_request_sample:
  "\<exists>pkt. doGetV3_request short_salt_codec des_session [1, 3, 6, 1, 2, 1, 1, 1, 0]
            AsnGetRequest 1 2 = Inr pkt"
proof -
  have h1: "privAlg des_session \<noteq> SnmpAES" and h2: "length (privKey des_session) = 16"
    and h3: "length (authKey des_session) \<le> 64"
    by (simp_all add: des_session_def SnmpAES_def)
  note enc = des_encrypt_decrypt_ok[OF h1 h2, THEN conjunct1]
  show ?thesis
    by (simp add: doGetV3_request_def short_salt_codec_def canned_codec_def enc
        v3_packet_def sign_packet_def auth_hmac[OF h3] Repeat_def)
qed

text \<open>
  Claim C10.  In DES privacy mode, a priv-param whose length is not 8 makes \<open>strXor\<close>
  panic inside \<open>decrypt\<close>.  The length comes from the datagram and is only tested against
  zero, so a reply to \<open>GetV3\<close>/\<open>GetNextV3\<close> and a v3 trap in \<open>ParseTrap\<close> with such a
  field end in that panic, not in an error returned to the caller.
\<close>

theorem des_privParam_length_panics:
  "(privAlg w \<noteq> SnmpAES \<and> 16 \<le> length (privKey w) \<and> length privParam \<noteq> 8 \<longrightarrow>
      decrypt w payload privParam =
        Inl (Panic ''strXor called with two strings of different length''))
   \<and> (privAlg w \<noteq> SnmpAES \<and> 16 \<le> length (privKey w)
       \<and> doGetV3_request cdc w oid request msgID requestID = Inr finalPacket
       \<and> poll c finalPacket bufSize (retries w) (500 * Millisecond) = Inr response
       \<and> DecodeSequence cdc response = Inr [t0, BerInt ver, gh, BerStr hs, BerStr ct]
       \<and> DecodeSequence cdc hs =
            Inr [t1, BerStr eid, BerInt boots, BerInt tm, BerStr usr, BerStr ap, BerStr pp]
       \<and> ap \<noteq> [] \<and> pp \<noteq> [] \<and> length pp \<noteq> 8 \<longrightarrow>
      fst (doGetV3 cdc c w oid request msgID requestID) =
        Inl (Panic ''strXor called with two strings of different length''))
   \<and> (DecodeSequence cdc response = Inr [t0, BerInt ver, gh, BerStr hs, BerStr ct]
       \<and> 3 \<le> ver
       \<and> DecodeSequence cdc hs =
            Inr [t1, BerStr eid, BerInt boots, BerInt tm, BerStr usr, BerStr ap, BerStr pp]
       \<and> ap \<noteq> [] \<and> pp \<noteq> [] \<and> length pp \<noteq> 8
       \<and> find (\<lambda>v3user. User v3user = usr) (TrapUsers w) = Some u
       \<and> PrivAlg u \<noteq> SnmpAES \<and> AuthPwd u \<noteq> [] \<and> PrivPwd u \<noteq> [] \<longrightarrow>
      ParseTrap cdc w response =
        Inl (Panic ''strXor called with two strings of different length''))"
proof (intro conjI impI)
  assume "privAlg w \<noteq> SnmpAES \<and> 16 \<le> length (privKey w) \<and> length privParam \<noteq> 8"
  then show "decrypt w payload privParam =
        Inl (Panic ''strXor called with two strings of different length'')"
    by (simp add: decrypt_des_strXor_panic)
next
  assume a: "privAlg w \<noteq> SnmpAES \<and> 16 \<le> length (privKey w)
       \<and> doGetV3_request cdc w oid request msgID requestID = Inr finalPacket
       \<and> poll c finalPacket bufSize (retries w) (500 * Millisecond) = Inr response
       \<and> DecodeSequence cdc response = Inr [t0, BerInt ver, gh, BerStr hs, BerStr ct]
       \<and> DecodeSequence cdc hs =
            Inr [t1, BerStr eid, BerInt boots, BerInt tm, BerStr usr, BerStr ap, BerStr pp]
       \<and> ap \<noteq> [] \<and> pp \<noteq> [] \<and> length pp \<noteq> 8"
  then have "fst (doGetV3_response cdc w response) =
         Inl (Panic ''strXor called with two strings of different length'')"
    by (intro doGetV3_response_strXor_panic) auto
  with a show "fst (doGetV3 cdc c w oid request msgID requestID) =
        Inl (Panic ''strXor called with two strings of different length'')"
    by (simp add: doGetV3_def)
next
  assume "DecodeSequence cdc response = Inr [t0, BerInt ver, gh, BerStr hs, BerStr ct]
       \<and> 3 \<le> ver
       \<and> DecodeSequence cdc hs =
            Inr [t1, BerStr eid, BerInt boots, BerInt tm, BerStr usr, BerStr ap, BerStr pp]
       \<and> ap \<noteq> [] \<and> pp \<noteq> [] \<and> length pp \<noteq> 8
       \<and> find (\<lambda>v3user. User v3user = usr) (TrapUsers w) = Some u
       \<and> PrivAlg u \<noteq> SnmpAES \<and> AuthPwd u \<noteq> [] \<and> PrivPwd u \<noteq> []"
  then show "ParseTrap cdc w response =
        Inl (Panic ''strXor called with two strings of different length'')"
    by (intro ParseTrap_strXor_panic) auto
qed

theorem des_privParam_length_panics_witness:
  "decrypt des_session [1, 2, 3, 4, 5, 6, 7, 8] [0, 0, 0, 1] =
     Inl (Panic ''strXor called with two strings of different length'')
   \<and> fst (doGetV3 short_salt_codec (reply_conn [0]) des_session [1, 3, 6, 1, 2, 1, 1, 1, 0]
            AsnGetRequest 1 2) =
     Inl (Panic ''strXor called with two strings of different length'')
   \<and> ParseTrap short_salt_codec des_session [0] =
     Inl (Panic ''strXor called with two strings of different length'')"
proof -
  obtain pkt where pkt: "doGetV3_request short_salt_codec des_session [1, 3, 6, 1, 2, 1, 1, 1, 0]
            AsnGetRequest 1 2 = Inr pkt"
    using doGetV3_request_sample by blast
  have p: "poll (reply_conn [0]) pkt bufSize (retries des_session) (500 * Millisecond) = Inr [0]"
    by (simp add: poll_reply_conn des_session_def bufSize_def)
  have d0: "DecodeSequence short_salt_codec [0] =
      Inr [BerType Sequence, BerInt 3,
           BerSeq [BerType Sequence, BerInt 1, BerInt 65500, BerStr [3], BerInt 3],
           BerStr [1], BerStr [1, 2, 3, 4, 5, 6, 7, 8]]"
    and d1: "DecodeSequence short_salt_codec [1] =
      Inr [BerType Sequence, BerStr [0x80, 0, 0x1f, 0x88, 0x80, 1, 2, 3, 4], BerInt 1,
           BerInt 100, BerStr (ascii ''admin''),
           BerStr [1, 2, 3, 4, 5, 6, 7, 8, 9, 10, 11, 12], BerStr [0, 0, 0, 1]]"
    by (simp_all add: short_salt_codec_def canned_codec_def short_salt_message_def
        short_salt_header_def)
  have u: "find (\<lambda>v3user. User v3user = ascii ''admin'') (TrapUsers des_session) =
      Some \<lparr>User = ascii ''admin'', AuthAlg = ''MD5'', AuthPwd = ascii ''maplesyrup'',
            PrivAlg = ''DES'', PrivPwd = ascii ''maplesyrup''\<rparr>"
    by (simp add: des_session_def)
  have s: "privAlg des_session \<noteq> SnmpAES" "16 \<le> length (privKey des_session)"
    by (simp_all add: des_session_def SnmpAES_def)
  have l: "length [0, 0, 0, 1 :: byte] \<noteq> 8" "[0, 0, 0, 1 :: byte] \<noteq> []"
    "[1, 2, 3, 4, 5, 6, 7, 8, 9, 10, 11, 12 :: byte] \<noteq> []" "(3 :: int) \<le> 3"
    by simp_all
  have a: "PrivAlg \<lparr>User = ascii ''admin'', AuthAlg = ''MD5'', AuthPwd = ascii ''maplesyrup'',
            PrivAlg = ''DES'', PrivPwd = ascii ''maplesyrup''\<rparr> \<noteq> SnmpAES"
    "AuthPwd \<lparr>User = ascii ''admin'', AuthAlg = ''MD5'', AuthPwd = ascii ''maplesyrup'',
            PrivAlg = ''DES'', PrivPwd = ascii ''maplesyrup''\<rparr> \<noteq> []"
    "PrivPwd \<lparr>User = ascii ''admin'', AuthAlg = ''MD5'', AuthPwd = ascii ''maplesyrup'',
            PrivAlg = ''DES'', PrivPwd = ascii ''maplesyrup''\<rparr> \<noteq> []"
    by (simp_all add: SnmpAES_def ascii_def)
  note T = des_privParam_length_panics[where w = des_session and privParam = "[0, 0, 0, 1]"
        and payload = "[1, 2, 3, 4, 5, 6, 7, 8]" and cdc = short_salt_codec
        and oid = "[1, 3, 6, 1, 2, 1, 1, 1, 0]" and request = AsnGetRequest and msgID = 1
        and requestID = 2 and finalPacket = pkt and c = "reply_conn [0]" and response = "[0]"
        and ?t0.0 = "BerType Sequence" and ver = 3
        and gh = "BerSeq [BerType Sequence, BerInt 1, BerInt 65500, BerStr [3], BerInt 3]"
        and hs = "[1]" and ct = "[1, 2, 3, 4, 5, 6, 7, 8]" and ?t1.0 = "BerType Sequence"
        and eid = "[0x80, 0, 0x1f, 0x88, 0x80, 1, 2, 3, 4]" and boots = 1 and tm = 100
        and usr = "ascii ''admin''" and ap = "[1, 2, 3, 4, 5, 6, 7, 8, 9, 10, 11, 12]"
        and pp = "[0, 0, 0, 1]"
        and u = "\<lparr>User = ascii ''admin'', AuthAlg = ''MD5'', AuthPwd = ascii ''maplesyrup'',
            PrivAlg = ''DES'', PrivPwd = ascii ''maplesyrup''\<rparr>"]
  from T s l pkt p d0 d1 u a show ?thesis by blast
qed

subsection \<open>Table walk\<close>

lemma table_round_Nil [simp]: "table_round root result lastOid [] = (result, lastOid)"
  by (simp add: table_round_def)

lemma table_round_snoc:
  "table_round root result lastOid (rs @ [(oid, v)]) =
     ((if Within oid root then (fst (table_round root result lastOid rs))(oid \<mapsto> v)
       else fst (table_round root result lastOid rs)), oid)"
  by (simp add: table_round_def table_step_def split: prod.splits)

lemma table_round_cursor:
  "snd (table_round root result lastOid results) =
     (if results = [] then lastOid else fst (last results))"
  by (cases results rule: rev_cases) (auto simp: table_round_snoc)

lemma table_round_acc:
  "fst (table_round root result lastOid results) =
     result ++ map_of (rev (filter (\<lambda>(oid, v). Within oid root) results))"
proof (induction results rule: rev_induct)
  case Nil
  then show ?case by simp
next
  case (snoc x xs)
  obtain oid v where x: "x = (oid, v)" by (cases x)
  show ?case using snoc by (auto simp: x table_round_snoc map_add_def fun_upd_def)
qed

lemma table_round_dom:
  "dom (fst (table_round root result lastOid results)) =
     dom result \<union> {oid \<in> fst ` set results. Within oid root}"
  by (auto simp: table_round_acc dom_map_of_conv_image_fst rev_image_eqI)

lemma table_round_value:
  assumes "distinct (map fst results)" "(oid, v) \<in> set results" "Within oid root"
  shows "fst (table_round root result lastOid results) oid = Some v"
proof -
  let ?L = "rev (filter (\<lambda>(oid, v). Within oid root) results)"
  have "distinct (map fst ?L)"
    using assms(1) by (simp add: rev_map[symmetric] distinct_map_filter)
  moreover have "(oid, v) \<in> set ?L" using assms(2,3) by simp
  ultimately have "map_of ?L oid = Some v" by (rule map_of_is_SomeI)
  then show ?thesis by (simp add: table_round_acc)
qed

lemma table_round_other:
  assumes "oid \<notin> fst ` set results \<or> \<not> Within oid root"
  shows "fst (table_round root result lastOid results) oid = result oid"
proof -
  let ?L = "rev (filter (\<lambda>(oid, v). Within oid root) results)"
  have "oid \<notin> fst ` set ?L" using assms by auto
  then have "map_of ?L oid = None" by (simp add: map_of_eq_None_iff)
  then show ?thesis by (simp add: table_round_acc map_add_def)
qed

lemma GetTable_from_state:
  "walk_state bulk root n = Some (lastOid, result) \<Longrightarrow>
   GetTable bulk (n + fuel) root = GetTable_loop bulk root fuel n lastOid result"
proof (induction n arbitrary: lastOid result fuel)
  case 0
  then show ?case by (simp add: GetTable_def)
next
  case (Suc n)
  from Suc.prems obtain c acc results where
    st: "walk_state bulk root n = Some (c, acc)" and w: "Within c root"
    and b: "bulk n c = Inr results"
    and r: "table_round root acc c results = (result, lastOid)" and ne: "c \<noteq> lastOid"
    by (auto split: option.splits if_splits sum.splits prod.splits)
  have "GetTable bulk (n + Suc fuel) root = GetTable_loop bulk root (Suc fuel) n c acc"
    by (rule Suc.IH[OF st])
  also have "\<dots> = GetTable_loop bulk root fuel (Suc n) lastOid result"
    using w b r ne by simp
  finally show ?case by simp
qed

lemma GetTable_loop_outside:
  "\<not> Within lastOid root \<Longrightarrow> GetTable_loop bulk root fuel k lastOid result = Some (Inr result)"
  by (cases fuel) simp_all

lemma GetTable_loop_same_cursor:
  "Within lastOid root \<Longrightarrow> bulk k lastOid = Inr results \<Longrightarrow>
   snd (table_round root result lastOid results) = lastOid \<Longrightarrow>
   GetTable_loop bulk root (Suc fuel) k lastOid result =
     Some (Inr (fst (table_round root result lastOid results)))"
  by (cases "table_round root result lastOid results") auto

text \<open>
  The ends of a walk.  \<open>walk_state bulk root n = Some (lastOid, result)\<close> says that the
  walk reaches its round \<open>n\<close> with that cursor and accumulator.  From there \<open>GetTable\<close>
  returns the accumulator built so far, for every number of rounds it is allowed beyond
  \<open>n\<close>: when the round's batch is empty; when the round leaves the cursor where it was;
  and, with no further request, when the cursor is outside the root.
\<close>

lemma GetTable_ends:
  "(walk_state bulk root n = Some (lastOid, result) \<and> Within lastOid root
      \<and> bulk n lastOid = Inr [] \<longrightarrow>
    GetTable bulk (Suc n + fuel) root = Some (Inr result))
   \<and> (walk_state bulk root n = Some (lastOid, result) \<and> Within lastOid root
      \<and> bulk n lastOid = Inr results
      \<and> snd (table_round root result lastOid results) = lastOid \<longrightarrow>
    GetTable bulk (Suc n + fuel) root =
      Some (Inr (fst (table_round root result lastOid results))))
   \<and> (walk_state bulk root n = Some (lastOid, result) \<and> \<not> Within lastOid root \<longrightarrow>
    GetTable bulk (n + fuel) root = Some (Inr result))"
proof (intro conjI impI)
  assume a: "walk_state bulk root n = Some (lastOid, result) \<and> Within lastOid root
      \<and> bulk n lastOid = Inr []"
  then have "GetTable bulk (n + Suc fuel) root = GetTable_loop bulk root (Suc fuel) n lastOid result"
    by (intro GetTable_from_state) simp
  moreover from a have "GetTable_loop bulk root (Suc fuel) n lastOid result = Some (Inr result)"
    by simp
  ultimately show "GetTable bulk (Suc n + fuel) root = Some (Inr result)" by simp
next
  assume a: "walk_state bulk root n = Some (lastOid, result) \<and> Within lastOid root
      \<and> bulk n lastOid = Inr results
      \<and> snd (table_round root result lastOid results) = lastOid"
  then have "GetTable bulk (n + Suc fuel) root = GetTable_loop bulk root (Suc fuel) n lastOid result"
    by (intro GetTable_from_state) simp
  moreover from a have "GetTable_loop bulk root (Suc fuel) n lastOid result =
      Some (Inr (fst (table_round root result lastOid results)))"
    by (intro GetTable_loop_same_cursor) simp_all
  ultimately show "GetTable bulk (Suc n + fuel) root =
      Some (Inr (fst (table_round root result lastOid results)))"
    by simp
next
  assume a: "walk_state bulk root n = Some (lastOid, result) \<and> \<not> Within lastOid root"
  then have "GetTable bulk (n + fuel) root = GetTable_loop bulk root fuel n lastOid result"
    by (intro GetTable_from_state) simp
  with a show "GetTable bulk (n + fuel) root = Some (Inr result)"
    by (simp add: GetTable_loop_outside)
qed

lemma GetTable_ends_sample:
  "GetTable empty_agent (Suc 0 + 5) ifDescr = Some (Inr Map.empty)
   \<and> GetTable stuck_agent (Suc 1 + 5) ifDescr =
       Some (Inr [ifDescr @ [1] \<mapsto> BerStr (ascii ''lo'')])
   \<and> GetTable leaving_agent (1 + 5) ifDescr = Some (Inr Map.empty)"
proof -
  have w0: "Within ifDescr ifDescr" and w1: "Within (ifDescr @ [1]) ifDescr"
    and w2: "\<not> Within [1, 3, 6, 1, 2, 1, 3, 1] ifDescr"
    by (simp_all add: Within_def ifDescr_def)
  have s0: "walk_state empty_agent ifDescr 0 = Some (ifDescr, Map.empty)" by simp
  have e0: "empty_agent 0 ifDescr = Inr []" by (simp add: empty_agent_def)
  have r1: "table_round ifDescr Map.empty ifDescr [(ifDescr @ [1], BerStr (ascii ''lo''))] =
      ([ifDescr @ [1] \<mapsto> BerStr (ascii ''lo'')], ifDescr @ [1])"
    using w1 by (simp add: table_round_def table_step_def)
  have s1: "walk_state stuck_agent ifDescr 1 =
      Some (ifDescr @ [1], [ifDescr @ [1] \<mapsto> BerStr (ascii ''lo'')])"
    using w0 r1 by (simp add: stuck_agent_def)
  have e1: "stuck_agent 1 (ifDescr @ [1]) = Inr [(ifDescr @ [1], BerStr (ascii ''lo''))]"
    by (simp add: stuck_agent_def)
  have r2: "table_round ifDescr [ifDescr @ [1] \<mapsto> BerStr (ascii ''lo'')] (ifDescr @ [1])
      [(ifDescr @ [1], BerStr (ascii ''lo''))] =
      ([ifDescr @ [1] \<mapsto> BerStr (ascii ''lo'')], ifDescr @ [1])"
    using w1 by (simp add: table_round_def table_step_def)
  have r3: "table_round ifDescr Map.empty ifDescr [([1, 3, 6, 1, 2, 1, 3, 1], BerInt 0)] =
      (Map.empty, [1, 3, 6, 1, 2, 1, 3, 1])"
    using w2 by (simp add: table_round_def table_step_def)
  have ne: "ifDescr \<noteq> [1, 3, 6, 1, 2, 1, 3, 1]" by (simp add: ifDescr_def)
  have s2: "walk_state leaving_agent ifDescr 1 = Some ([1, 3, 6, 1, 2, 1, 3, 1], Map.empty)"
    using w0 r3 ne by (simp add: leaving_agent_def)
  have c1: "GetTable empty_agent (Suc 0 + 5) ifDescr = Some (Inr Map.empty)"
    using GetTable_ends[where bulk = empty_agent and root = ifDescr and n = 0
        and lastOid = ifDescr and result = Map.empty and fuel = 5] s0 w0 e0 by blast
  have c2: "GetTable stuck_agent (Suc 1 + 5) ifDescr =
       Some (Inr (fst (table_round ifDescr [ifDescr @ [1] \<mapsto> BerStr (ascii ''lo'')]
          (ifDescr @ [1]) [(ifDescr @ [1], BerStr (ascii ''lo''))])))"
    using GetTable_ends[where bulk = stuck_agent and root = ifDescr and n = 1
        and lastOid = "ifDescr @ [1]" and result = "[ifDescr @ [1] \<mapsto> BerStr (ascii ''lo'')]"
        and results = "[(ifDescr @ [1], BerStr (ascii ''lo''))]" and fuel = 5]
      s1 w1 e1 r2 by simp
  have c3: "GetTable leaving_agent (1 + 5) ifDescr = Some (Inr Map.empty)"
    using GetTable_ends[where bulk = leaving_agent and root = ifDescr and n = 1
        and lastOid = "[1, 3, 6, 1, 2, 1, 3, 1]" and result = Map.empty and fuel = 5]
      s2 w2 by blast
  from c1 c2 c3 r2 show ?thesis by simp
qed

lemma alt_agent_round:
  "table_round ifDescr acc c (if even k then rev two_rows else two_rows) =
     (acc(ifDescr @ [1] \<mapsto> BerStr (ascii ''lo''), ifDescr @ [2] \<mapsto> BerStr (ascii ''eth0'')),
      if even k then ifDescr @ [2] else ifDescr @ [1])"
  by (auto simp: table_round_def table_step_def two_rows_def Within_def)

lemma alt_agent_walks:
  "Within c ifDescr \<Longrightarrow> (even k \<longrightarrow> c \<noteq> ifDescr @ [2]) \<Longrightarrow> (odd k \<longrightarrow> c \<noteq> ifDescr @ [1]) \<Longrightarrow>
   GetTable_loop alt_agent ifDescr fuel k c acc = None"
proof (induction fuel arbitrary: k c acc)
  case 0
  then show ?case by simp
next
  case (Suc fuel)
  let ?acc = "acc(ifDescr @ [1] \<mapsto> BerStr (ascii ''lo''),
      ifDescr @ [2] \<mapsto> BerStr (ascii ''eth0''))"
  let ?new = "if even k then ifDescr @ [2] else ifDescr @ [1]"
  have ne: "c \<noteq> ?new" using Suc.prems by auto
  have w: "Within ?new ifDescr" by (simp add: Within_def)
  have "GetTable_loop alt_agent ifDescr (Suc fuel) k c acc =
      GetTable_loop alt_agent ifDescr fuel (Suc k) ?new ?acc"
    using Suc.prems(1) ne by (simp add: alt_agent_def alt_agent_round del: fun_upd_apply)
  also have "\<dots> = None"
    by (rule Suc.IH[OF w]) auto
  finally show ?case .
qed

text \<open>
  Claim C7.  The walk does not end when the agent returns the same OID set twice.
  \<open>alt_agent\<close> answers every request with the rows \<open>ifDescr.1\<close> and \<open>ifDescr.2\<close>; the new
  cursor is the entry visited last, \<open>ifDescr.2\<close> in one round and \<open>ifDescr.1\<close> in the
  next, so it never equals the previous cursor: after the second identical batch the walk
  is still going, and \<open>GetTable\<close> has not returned whatever number of rounds it is given.
\<close>

theorem GetTable_same_set_twice_runs_on:
  "(case alt_agent k cursor of
      Inl err \<Rightarrow> False
    | Inr results \<Rightarrow> fst ` set results = {ifDescr @ [1], ifDescr @ [2]})
   \<and> map_option fst (walk_state alt_agent ifDescr 1) = Some (ifDescr @ [2])
   \<and> map_option fst (walk_state alt_agent ifDescr 2) = Some (ifDescr @ [1])
   \<and> GetTable alt_agent fuel ifDescr = None"
proof (intro conjI)
  show "case alt_agent k cursor of
      Inl err \<Rightarrow> False
    | Inr results \<Rightarrow> fst ` set results = {ifDescr @ [1], ifDescr @ [2]}"
    by (auto simp: alt_agent_def two_rows_def)
  have w0: "Within ifDescr ifDescr" by (simp add: Within_def)
  have w2: "Within (ifDescr @ [2]) ifDescr" by (simp add: Within_def)
  have s1: "walk_state alt_agent ifDescr 1 =
      Some (ifDescr @ [2], [ifDescr @ [1] \<mapsto> BerStr (ascii ''lo''),
        ifDescr @ [2] \<mapsto> BerStr (ascii ''eth0'')])"
    using w0 alt_agent_round[of Map.empty ifDescr 0]
    by (simp add: alt_agent_def del: fun_upd_apply)
  then show "map_option fst (walk_state alt_agent ifDescr 1) = Some (ifDescr @ [2])" by simp
  have "walk_state alt_agent ifDescr (Suc 1) =
      Some (ifDescr @ [1], [ifDescr @ [1] \<mapsto> BerStr (ascii ''lo''),
        ifDescr @ [2] \<mapsto> BerStr (ascii ''eth0''), ifDescr @ [1] \<mapsto> BerStr (ascii ''lo''),
        ifDescr @ [2] \<mapsto> BerStr (ascii ''eth0'')])"
    using w2 alt_agent_round[of "[ifDescr @ [1] \<mapsto> BerStr (ascii ''lo''),
        ifDescr @ [2] \<mapsto> BerStr (ascii ''eth0'')]" "ifDescr @ [2]" 1]
    unfolding walk_state.simps(2)[of alt_agent ifDescr 1] s1
    by (simp add: alt_agent_def del: fun_upd_apply)
  then show "map_option fst (walk_state alt_agent ifDescr 2) = Some (ifDescr @ [1])"
    by (simp add: numeral_2_eq_2)
  show "GetTable alt_agent fuel ifDescr = None"
    unfolding GetTable_def by (rule alt_agent_walks) (simp_all add: Within_def)
qed

text \<open>
  Claim C6.  The first half holds: a round adds to the accumulator exactly the returned
  entries whose OID is within the root (\<open>table_round_acc\<close>, \<open>table_round_dom\<close>,
  \<open>table_round_value\<close>).  The cursor, however, is the OID that \<open>range\<close> visits last
  (\<open>table_round_cursor\<close>), and a Go map is visited in no particular order: when a batch
  of two rows is visited with the larger OID first, the next cursor is the smaller one.
\<close>

theorem GetTable_cursor_not_largest:
  "map_option fst (walk_state two_rows_agent ifDescr 1) = Some (ifDescr @ [1])
   \<and> ifDescr @ [2] \<in> fst ` set two_rows
   \<and> oid_less (ifDescr @ [1]) (ifDescr @ [2])"
proof -
  have w: "Within ifDescr ifDescr" "Within (ifDescr @ [1]) ifDescr" "Within (ifDescr @ [2]) ifDescr"
    by (simp_all add: Within_def ifDescr_def)
  have "snd (table_round ifDescr Map.empty ifDescr two_rows) = ifDescr @ [1]"
    by (simp add: table_round_cursor two_rows_def)
  moreover have "ifDescr \<noteq> ifDescr @ [1]" by simp
  ultimately have "map_option fst (walk_state two_rows_agent ifDescr 1) = Some (ifDescr @ [1])"
    using w(1) by (cases "table_round ifDescr Map.empty ifDescr two_rows")
      (auto simp: two_rows_agent_def)
  moreover have "oid_less (ifDescr @ [1]) (ifDescr @ [2])" by (simp add: ifDescr_def)
  ultimately show ?thesis by (simp add: two_rows_def)
qed

subsection \<open>Salts across requests\<close>

lemma doGetV3_response_keeps:
  "desIV (snd (doGetV3_response cdc w r)) = desIV w"
  "aesIV (snd (doGetV3_response cdc w r)) = aesIV w"
  "privKey (snd (doGetV3_response cdc w r)) = privKey w"
  "privAlg (snd (doGetV3_response cdc w r)) = privAlg w"
  by (simp_all add: doGetV3_response_def Let_def split: sum.splits)

lemma doGetV3_keeps_salts:
  "desIV (snd (doGetV3 cdc c w oid request msgID requestID)) = desIV w"
  "aesIV (snd (doGetV3 cdc c w oid request msgID requestID)) = aesIV w"
  by (simp_all add: doGetV3_def doGetV3_response_keeps split: sum.splits)

lemma decrypt_des_cong:
  "privAlg w \<noteq> SnmpAES \<Longrightarrow> privAlg w' = privAlg w \<Longrightarrow> privKey w' = privKey w \<Longrightarrow>
   decrypt w' c pp = decrypt w c pp"
  by (simp add: decrypt_def)

lemma doGetV3_request_canned:
  "\<exists>pkt. doGetV3_request (canned_codec tbl) des_session sysDescr AsnGetRequest 1 2 = Inr pkt"
proof -
  have h1: "privAlg des_session \<noteq> SnmpAES" and h2: "length (privKey des_session) = 16"
    and h3: "length (authKey des_session) \<le> 64"
    by (simp_all add: des_session_def SnmpAES_def)
  note enc = des_encrypt_decrypt_ok[OF h1 h2, THEN conjunct1]
  show ?thesis
    by (simp add: doGetV3_request_def canned_codec_def enc sysDescr_def
        v3_packet_def sign_packet_def auth_hmac[OF h3] Repeat_def)
qed

lemma GetV3_good_exchange:
  "GetV3 good_codec (reply_conn [0]) des_session sysDescr 1 2 =
     (Inr (BerStr (ascii ''router'')), after_reply)"
proof -
  obtain pkt where pkt: "doGetV3_request good_codec des_session sysDescr AsnGetRequest 1 2 = Inr pkt"
    using doGetV3_request_canned by (auto simp: good_codec_def)
  have p: "poll (reply_conn [0]) pkt bufSize (retries des_session) (500 * Millisecond) = Inr [0]"
    by (simp add: poll_reply_conn des_session_def bufSize_def)
  have a1: "privAlg agent_session \<noteq> SnmpAES" and a2: "length (privKey agent_session) = 16"
    by (simp_all add: agent_session_def des_session_def SnmpAES_def)
  have pad: "zero_pad8 reply_plain = reply_plain" unfolding reply_plain_def by code_simp
  have "decrypt agent_session (des_ciphertext agent_session reply_plain)
          (des_privParam agent_session) = Inr reply_plain"
    using des_encrypt_decrypt_ok[OF a1 a2, of reply_plain] by (simp add: pad)
  moreover have "privAlg after_reply = privAlg agent_session"
    "privKey after_reply = privKey agent_session"
    by (simp_all add: after_reply_def agent_session_def)
  ultimately have dec: "decrypt after_reply (des_ciphertext agent_session reply_plain)
          (des_privParam agent_session) = Inr reply_plain"
    using a1 by (simp add: decrypt_des_cong[of agent_session after_reply])
  have pp: "des_privParam agent_session \<noteq> []"
    by (simp add: des_privParam_def bytes_be32_def)
  have d0: "DecodeSequence good_codec [0] = Inr good_message"
    and d1: "DecodeSequence good_codec [1] = Inr good_header"
    and d2: "DecodeSequence good_codec reply_plain = Inr good_pdu"
    by (simp_all add: good_codec_def canned_codec_def reply_plain_def)
  have resp: "doGetV3_response good_codec des_session [0] =
      (Inr (sysDescr, BerStr (ascii ''router'')), after_reply)"
    using pp
    by (simp add: doGetV3_response_def d0 d1 index_def good_message_def good_header_def Let_def
        after_reply_def[symmetric] doGetV3_pdu_def dec d2 good_pdu_def)
  show ?thesis by (simp add: GetV3_def doGetV3_def pkt p resp)
qed

text \<open>
  Claim C1.  Inside one call the counter is incremented before the priv-param and the IV
  are formed, but the increment is made on the copy of the session that the value receiver
  of \<open>encrypt\<close> works on.  The session itself keeps its counters through every request
  (\<open>doGetV3_keeps_salts\<close>); only \<open>Discover\<close> writes them.  Here a session with DES counter
  7 encrypts under salt 8, completes a \<open>GetV3\<close> exchange in the same boots epoch, still
  holds counter 7, and encrypts the next payload under salt 8 again.
\<close>

theorem salt_reused_across_requests:
  "encrypt des_session [1, 2, 3] =
     Inr (des_ciphertext des_session [1, 2, 3], [0, 0, 0, 1, 0, 0, 0, 8])
   \<and> GetV3 good_codec (reply_conn [0]) des_session sysDescr 1 2 =
       (Inr (BerStr (ascii ''router'')), after_reply)
   \<and> desIV after_reply = 7 \<and> aesIV after_reply = 7 \<and> engineBoots after_reply = 1
   \<and> encrypt after_reply [4, 5, 6] =
       Inr (des_ciphertext after_reply [4, 5, 6], [0, 0, 0, 1, 0, 0, 0, 8])"
proof -
  have h: "privAlg des_session \<noteq> SnmpAES" "length (privKey des_session) = 16"
    "privAlg after_reply \<noteq> SnmpAES" "length (privKey after_reply) = 16"
    by (simp_all add: after_reply_def des_session_def SnmpAES_def)
  have pp: "des_privParam des_session = [0, 0, 0, 1, 0, 0, 0, 8]"
    "des_privParam after_reply = [0, 0, 0, 1, 0, 0, 0, 8]"
    by (simp_all add: des_privParam_def after_reply_def des_session_def bytes_be32_def)
  have "encrypt des_session [1, 2, 3] =
      Inr (des_ciphertext des_session [1, 2, 3], des_privParam des_session)"
    using des_encrypt_decrypt_ok[OF h(1,2)] by blast
  moreover have "encrypt after_reply [4, 5, 6] =
      Inr (des_ciphertext after_reply [4, 5, 6], des_privParam after_reply)"
    using des_encrypt_decrypt_ok[OF h(3,4)] by blast
  moreover have "desIV after_reply = 7" "aesIV after_reply = 7" "engineBoots after_reply = 1"
    by (simp_all add: after_reply_def des_session_def)
  ultimately show ?thesis by (simp add: pp GetV3_good_exchange)
qed

subsection \<open>The timeout handed to poll\<close>

lemma timeout_unused:
  "Get cdc c (w\<lparr>timeout := t\<rparr>) oid requestID = Get cdc c w oid requestID"
  "GetMultiple cdc c (w\<lparr>timeout := t\<rparr>) oids requestID = GetMultiple cdc c w oids requestID"
  "GetNext cdc c (w\<lparr>timeout := t\<rparr>) oid requestID = GetNext cdc c w oid requestID"
  "GetBulk cdc c (w\<lparr>timeout := t\<rparr>) oid n requestID = GetBulk cdc c w oid n requestID"
  by (simp_all add: Get_def GetMultiple_def GetNext_def GetBulk_def)

lemma poll_one_attempt:
  "poll c toSend bufLen 0 tmo =
     (let a = c 0 in
      case SetWriteDeadline a (now_write a + tmo) of
        Some e \<Rightarrow> Inl (NetErr e)
      | None \<Rightarrow>
         (case Write a (now_write a + tmo) toSend of
            Some e \<Rightarrow> Inl (NetErr e)
          | None \<Rightarrow>
             (case SetReadDeadline a (now_read a + tmo) of
                Some e \<Rightarrow> Inl (NetErr e)
              | None \<Rightarrow>
                 (case Read a (now_read a + tmo) toSend of
                    Inl e \<Rightarrow> Inl (NetErr e)
                  | Inr datagram \<Rightarrow> Inr (take bufLen datagram)))))"
  by (simp add: poll_def wrap_int64_def Let_def split: option.splits sum.splits)

text \<open>
  Claim C9.  The field \<open>timeout\<close> (``Timeout to use for all SNMP packets'') reaches
  \<open>net.DialTimeout\<close> only.  Every operation calls \<open>poll\<close> with the constant
  \<open>500*time.Millisecond\<close>, so its result does not depend on the field
  (\<open>timeout_unused\<close>).  Here a session configured with two seconds and no retry asks an
  agent that answers after one second: a read deadline of \<open>now + timeout\<close> receives the
  answer, but \<open>Get\<close> sets \<open>now + 500ms\<close> and fails with the read's timeout.
\<close>

theorem Get_ignores_configured_timeout:
  "NewSNMP ''192.0.2.1'' (ascii ''public'') 1 (2000 * Millisecond) 0 None = Inr v2_session
   \<and> timeout v2_session = 2000 * Millisecond
   \<and> Read (slow_conn [0] 0) (now_read (slow_conn [0] 0) + timeout v2_session) [] = Inr [0]
   \<and> Get (canned_codec []) (slow_conn [0]) v2_session sysDescr 1 = Inl (NetErr ''i/o timeout'')"
proof -
  have "Get (canned_codec []) (slow_conn [0]) v2_session sysDescr 1 = Inl (NetErr ''i/o timeout'')"
    by (simp add: Get_def canned_codec_def sysDescr_def v2_session_def poll_one_attempt
        slow_conn_def Millisecond_def)
  then show ?thesis
    by (simp add: NewSNMP_def v2_session_def slow_conn_def Millisecond_def)
qed

subsection \<open>Requests without discovery\<close>

lemma bindE_never:
  "m \<noteq> Inl e \<Longrightarrow> (\<And>x. f x \<noteq> Inl e) \<Longrightarrow> bindE m f \<noteq> Inl e"
  by (cases m) simp_all

lemma never_NotDiscovered [simp]:
  "orPanic r \<noteq> Inl NotDiscovered"
  "orReturn DecodeErr r \<noteq> Inl NotDiscovered"
  "discardErr d x \<noteq> Inl NotDiscovered"
  "index xs i \<noteq> Inl NotDiscovered"
  "substr s lo hi \<noteq> Inl NotDiscovered"
  "Repeat s n \<noteq> Inl NotDiscovered"
  "strXor s1 s2 \<noteq> Inl NotDiscovered"
  "asString b \<noteq> Inl NotDiscovered"
  "asInt b \<noteq> Inl NotDiscovered"
  "asSeq b \<noteq> Inl NotDiscovered"
  "asOid b \<noteq> Inl NotDiscovered"
  by (auto simp: orPanic_def orReturn_def discardErr_def index_def substr_def Repeat_def
      strXor_def asString_def asInt_def asSeq_def asOid_def split: sum.splits error.splits ber.splits)

lemma poll_loop_never_NotDiscovered: "poll_loop c toSend bufLen tmo n i err \<noteq> Inl NotDiscovered"
  by (induction n arbitrary: i err) (auto simp: Let_def split: option.splits sum.splits)

lemma poll_never_NotDiscovered [simp]: "poll c toSend bufLen rtr tmo \<noteq> Inl NotDiscovered"
  by (simp add: poll_def poll_loop_never_NotDiscovered)

lemma auth_never_NotDiscovered [simp]: "auth w m \<noteq> Inl NotDiscovered"
  unfolding auth_def Let_def by (intro bindE_never) simp_all

lemma sign_packet_never_NotDiscovered [simp]: "sign_packet w p \<noteq> Inl NotDiscovered"
  unfolding sign_packet_def by (intro bindE_never) simp_all

lemma v3_packet_never_NotDiscovered [simp]:
  "v3_packet cdc w msgID ap pp ct \<noteq> Inl NotDiscovered"
  unfolding v3_packet_def Let_def by (intro bindE_never) simp_all

lemma doGetV3_request_never_NotDiscovered [simp]:
  "doGetV3_request cdc w oid request msgID requestID \<noteq> Inl NotDiscovered"
  by (simp add: doGetV3_request_def bindE_eq_Inl case_prod_beta)

lemma doGetV3_pdu_never_NotDiscovered [simp]:
  "doGetV3_pdu cdc w decoded header \<noteq> Inl NotDiscovered"
  by (simp add: doGetV3_pdu_def bindE_eq_Inl)

lemma doGetV3_response_never_NotDiscovered [simp]:
  "fst (doGetV3_response cdc w response) \<noteq> Inl NotDiscovered"
  by (auto simp: doGetV3_response_def Let_def bindE_eq_Inl split: sum.splits)










subsection \<open>The privacy key\<close>

lemma Discover_Inr:
  assumes "Discover cdc c msgID requestID rand63 rand32 w = Inr w'"
  shows "\<exists>eid boots tm. derive_keys (w\<lparr>engineID := eid, engineBoots := boots,
                     engineTime := tm, aesIV := rand63, desIV := rand32\<rparr>) = Inr w'"
  using assms by (auto simp: Discover_def Let_def bindE_eq_Inr)

lemma ParseTrap_session_Inr:
  assumes "ParseTrap_session cdc w decodedResponse = Inr (w', respPrivParam)"
  shows "\<exists>eid boots tm usr v3user.
           find (\<lambda>u. User u = usr) (TrapUsers w) = Some v3user
           \<and> derive_keys (w\<lparr>engineID := eid, engineBoots := boots,
                      engineTime := tm, user := usr,
                      authAlg := AuthAlg v3user, privAlg := PrivAlg v3user,
                      authPwd := AuthPwd v3user, privPwd := PrivPwd v3user\<rparr>) = Inr w'"
  using assms
  by (auto simp: ParseTrap_session_def bindE_eq_Inr split: if_splits option.splits) blast

lemma Discover_sample:
  "\<exists>w'. Discover good_codec (reply_conn [0]) 1 2 5 7 fresh_v3_session = Inr w'
        \<and> engineID w' = [0x80, 0, 0x1f, 0x88, 0x80, 1, 2, 3, 4]"
proof -
  let ?w1 = "fresh_v3_session\<lparr>engineID := [0x80, 0, 0x1f, 0x88, 0x80, 1, 2, 3, 4],
      engineBoots := word_of_int 1, engineTime := word_of_int 101, aesIV := 5, desIV := 7\<rparr>"
  have "authPwd ?w1 \<noteq> []" "privPwd ?w1 \<noteq> []"
    by (simp_all add: fresh_v3_session_def ascii_def)
  from derive_keys_nonempty[OF this] obtain w' where d: "derive_keys ?w1 = Inr w'" by blast
  from derive_keys_Inr[OF d] have e: "engineID w' = [0x80, 0, 0x1f, 0x88, 0x80, 1, 2, 3, 4]"
    by auto
  have r: "retries fresh_v3_session = 0" "Version fresh_v3_session = 3"
    by (simp_all add: fresh_v3_session_def)
  have "Discover good_codec (reply_conn [0]) 1 2 5 7 fresh_v3_session = Inr w'"
    unfolding Discover_def Let_def
    by (simp add: good_codec_def canned_codec_def r poll_reply_conn bufSize_def index_def
        good_message_def good_header_def reply_plain_def d[simplified])
  with e show ?thesis by blast
qed

lemma ParseTrap_session_sample:
  "\<exists>w' pp. ParseTrap_session good_codec des_session good_message = Inr (w', pp)
        \<and> engineID w' = [0x80, 0, 0x1f, 0x88, 0x80, 1, 2, 3, 4] \<and> user w' = ascii ''admin''"
proof -
  let ?u = "\<lparr>User = ascii ''admin'', AuthAlg = ''MD5'', AuthPwd = ascii ''maplesyrup'',
             PrivAlg = ''DES'', PrivPwd = ascii ''maplesyrup''\<rparr>"
  let ?w1 = "des_session\<lparr>engineID := [0x80, 0, 0x1f, 0x88, 0x80, 1, 2, 3, 4],
      engineBoots := word_of_int 1, engineTime := word_of_int 101, user := ascii ''admin'',
      authAlg := AuthAlg ?u, privAlg := PrivAlg ?u, authPwd := AuthPwd ?u,
      privPwd := PrivPwd ?u\<rparr>"
  have "authPwd ?w1 \<noteq> []" "privPwd ?w1 \<noteq> []" by (simp_all add: ascii_def)
  from derive_keys_nonempty[OF this] obtain w' where d: "derive_keys ?w1 = Inr w'" by blast
  from derive_keys_Inr[OF d] have e: "engineID w' = [0x80, 0, 0x1f, 0x88, 0x80, 1, 2, 3, 4]"
    "user w' = ascii ''admin''"
    by auto
  have u: "TrapUsers des_session = [?u]" by (simp add: des_session_def)
  have pp: "des_privParam agent_session \<noteq> []"
    by (simp add: des_privParam_def bytes_be32_def)
  have "ParseTrap_session good_codec des_session good_message =
      Inr (w', des_privParam agent_session)"
    unfolding ParseTrap_session_def
    using pp
    by (simp add: good_codec_def canned_codec_def index_def good_message_def good_header_def
        reply_plain_def u d[simplified])
  with e show ?thesis by blast
qed

text \<open>
  Claim C3.  In \<open>Discover\<close> and in the v3 branch of \<open>ParseTrap\<close> the privacy key is
  \<open>passwordToKey\<close> of the privacy password under the engine-id just stored and under
  the \<open>auth\<close> algorithm of the session (in \<open>ParseTrap\<close>: of the matching trap user), and
  what is stored in \<open>privKey\<close> is the first 16 bytes of that \<open>Kul\<close>.
\<close>

theorem privKey_from_privPwd_under_authAlg:
  "(Discover cdc c msgID requestID rand63 rand32 w = Inr w' \<longrightarrow>
      privPwd w' = privPwd w \<and> authAlg w' = authAlg w
      \<and> (\<exists>Kul. passwordToKey (privPwd w) (engineID w') (authAlg w) = Inr Kul
             \<and> privKey w' = take 16 Kul \<and> length (privKey w') = 16))
   \<and> (ParseTrap_session cdc w decodedResponse = Inr (w', respPrivParam) \<longrightarrow>
      (\<exists>v3user Kul. find (\<lambda>u. User u = user w') (TrapUsers w) = Some v3user
             \<and> privPwd w' = PrivPwd v3user \<and> authAlg w' = AuthAlg v3user
             \<and> passwordToKey (PrivPwd v3user) (engineID w') (AuthAlg v3user) = Inr Kul
             \<and> privKey w' = take 16 Kul \<and> length (privKey w') = 16))"
proof (intro conjI impI)
  assume a: "Discover cdc c msgID requestID rand63 rand32 w = Inr w'"
  from Discover_Inr[OF a] obtain eid boots tm where
    d: "derive_keys (w\<lparr>engineID := eid, engineBoots := boots,
                     engineTime := tm, aesIV := rand63, desIV := rand32\<rparr>) = Inr w'"
    by blast
  from derive_keys_Inr[OF d] obtain Kul ak where
    k: "passwordToKey (privPwd w) eid (authAlg w) = Inr Kul"
    and w': "w' = w\<lparr>engineID := eid, engineBoots := boots,
                     engineTime := tm, aesIV := rand63, desIV := rand32,
                     authKey := ak, privKey := take 16 Kul\<rparr>"
    and l: "length (take 16 Kul) = 16"
    by auto
  show "privPwd w' = privPwd w" "authAlg w' = authAlg w" by (simp_all add: w')
  show "\<exists>Kul. passwordToKey (privPwd w) (engineID w') (authAlg w) = Inr Kul
             \<and> privKey w' = take 16 Kul \<and> length (privKey w') = 16"
    using k l by (simp add: w')
next
  assume a: "ParseTrap_session cdc w decodedResponse = Inr (w', respPrivParam)"
  from ParseTrap_session_Inr[OF a] obtain eid boots tm usr v3user where
    f: "find (\<lambda>u. User u = usr) (TrapUsers w) = Some v3user" and
    d: "derive_keys (w\<lparr>engineID := eid, engineBoots := boots,
                      engineTime := tm, user := usr,
                      authAlg := AuthAlg v3user, privAlg := PrivAlg v3user,
                      authPwd := AuthPwd v3user, privPwd := PrivPwd v3user\<rparr>) = Inr w'"
    by blast
  from derive_keys_Inr[OF d] obtain Kul ak where
    k: "passwordToKey (PrivPwd v3user) eid (AuthAlg v3user) = Inr Kul"
    and w': "w' = w\<lparr>engineID := eid, engineBoots := boots,
                      engineTime := tm, user := usr,
                      authAlg := AuthAlg v3user, privAlg := PrivAlg v3user,
                      authPwd := AuthPwd v3user, privPwd := PrivPwd v3user,
                      authKey := ak, privKey := take 16 Kul\<rparr>"
    and l: "length (take 16 Kul) = 16"
    by auto
  show "\<exists>v3user Kul. find (\<lambda>u. User u = user w') (TrapUsers w) = Some v3user
             \<and> privPwd w' = PrivPwd v3user \<and> authAlg w' = AuthAlg v3user
             \<and> passwordToKey (PrivPwd v3user) (engineID w') (AuthAlg v3user) = Inr Kul
             \<and> privKey w' = take 16 Kul \<and> length (privKey w') = 16"
    using f k l by (simp add: w')
qed

theorem privKey_from_privPwd_under_authAlg_witness:
  "(\<exists>w' Kul. Discover good_codec (reply_conn [0]) 1 2 5 7 fresh_v3_session = Inr w'
       \<and> passwordToKey (ascii ''maplesyrup'') [0x80, 0, 0x1f, 0x88, 0x80, 1, 2, 3, 4] ''MD5''
           = Inr Kul
       \<and> privKey w' = take 16 Kul \<and> length (privKey w') = 16)
   \<and> (\<exists>w' pp Kul. ParseTrap_session good_codec des_session good_message = Inr (w', pp)
       \<and> passwordToKey (ascii ''maplesyrup'') [0x80, 0, 0x1f, 0x88, 0x80, 1, 2, 3, 4] ''MD5''
           = Inr Kul
       \<and> privKey w' = take 16 Kul \<and> length (privKey w') = 16)"
proof -
  obtain w1 where d: "Discover good_codec (reply_conn [0]) 1 2 5 7 fresh_v3_session = Inr w1"
    and e1: "engineID w1 = [0x80, 0, 0x1f, 0x88, 0x80, 1, 2, 3, 4]"
    using Discover_sample by blast
  obtain w2 pp where p: "ParseTrap_session good_codec des_session good_message = Inr (w2, pp)"
    and e2: "engineID w2 = [0x80, 0, 0x1f, 0x88, 0x80, 1, 2, 3, 4]"
    and u2: "user w2 = ascii ''admin''"
    using ParseTrap_session_sample by blast
  have f: "privPwd fresh_v3_session = ascii ''maplesyrup''" "authAlg fresh_v3_session = ''MD5''"
    by (simp_all add: fresh_v3_session_def)
  have u: "find (\<lambda>u. User u = ascii ''admin'') (TrapUsers des_session) =
      Some \<lparr>User = ascii ''admin'', AuthAlg = ''MD5'', AuthPwd = ascii ''maplesyrup'',
            PrivAlg = ''DES'', PrivPwd = ascii ''maplesyrup''\<rparr>"
    by (simp add: des_session_def)
  from privKey_from_privPwd_under_authAlg[where cdc = good_codec and c = "reply_conn [0]"
      and msgID = 1 and requestID = 2 and ?rand63.0 = 5 and ?rand32.0 = 7
      and w = fresh_v3_session and w' = w1, THEN conjunct1] d
  have c1: "\<exists>Kul. passwordToKey (ascii ''maplesyrup'') [0x80, 0, 0x1f, 0x88, 0x80, 1, 2, 3, 4]
      ''MD5'' = Inr Kul \<and> privKey w1 = take 16 Kul \<and> length (privKey w1) = 16"
    by (simp add: f e1)
  from privKey_from_privPwd_under_authAlg[where cdc = good_codec and w = des_session
      and decodedResponse = good_message and w' = w2 and respPrivParam = pp, THEN conjunct2] p
  have c2: "\<exists>Kul. passwordToKey (ascii ''maplesyrup'') [0x80, 0, 0x1f, 0x88, 0x80, 1, 2, 3, 4]
      ''MD5'' = Inr Kul \<and> privKey w2 = take 16 Kul \<and> length (privKey w2) = 16"
    by (auto simp: u u2 e2)
  from d c1 p c2 show ?thesis by blast
qed

end
